theory Spec2Isabelle
  imports Main "HOL-Library.Word" "HOL-Library.Monad_Syntax"
begin

unbundle bit_operations_syntax

section \<open>A leveled logger (package log, file log.go)\<close>

text \<open>
  The model is sequential: the mutex \<open>outMu\<close> and the atomic cells of the source are
  plain fields, read and written whole. Go's \<open>int\<close> is read as a 64-bit integer; it is
  modelled by \<open>int\<close>, and the places where the width shows (the conversion to \<open>int32\<close>
  in \<open>SetFlags\<close>, the conversion to \<open>byte\<close> in \<open>itoa\<close>) are written out. A run-time
  panic (an index out of range, a method call on a nil interface) is the value \<open>None\<close>.
\<close>

subsection \<open>Integers, levels and flags\<close>

definition int64 :: "int \<Rightarrow> bool" where
  "int64 x \<longleftrightarrow> - (2 ^ 63) \<le> x \<and> x < 2 ^ 63"

text \<open>Go's integer division truncates towards zero.\<close>

definition quot :: "int \<Rightarrow> int \<Rightarrow> int" where
  "quot a b = sgn a * sgn b * (\<bar>a\<bar> div \<bar>b\<bar>)"

text \<open>The conversion \<open>byte(x)\<close> keeps the low eight bits.\<close>

definition byte :: "int \<Rightarrow> char" where
  "byte x = char_of (x mod 256)"

type_synonym Level = "8 word"

definition DEBUG :: Level where "DEBUG = 0"
definition INFO :: Level where "INFO = 1"
definition ERROR :: Level where "ERROR = 2"

definition Ldate :: int where "Ldate = 1"
definition Ltime :: int where "Ltime = 2"
definition Lmicroseconds :: int where "Lmicroseconds = 4"
definition Llongfile :: int where "Llongfile = 8"
definition Lshortfile :: int where "Lshortfile = 16"
definition LUTC :: int where "LUTC = 32"
definition LstdFlags :: int where "LstdFlags = Ldate OR Ltime"

subsection \<open>Byte slices\<close>

text \<open>
  A \<open>[]byte\<close> is its contents and its capacity. What capacity \<open>append\<close> allocates
  when the contents outgrow it is the runtime's choice: it is the parameter \<open>grow\<close>
  (old capacity, needed length) of every function that appends.
\<close>

record slice =
  elems :: string
  cap :: nat

definition nil_slice :: slice where
  "nil_slice = \<lparr>elems = [], cap = 0\<rparr>"

definition append_bytes :: "(nat \<Rightarrow> nat \<Rightarrow> nat) \<Rightarrow> slice \<Rightarrow> string \<Rightarrow> slice" where
  "append_bytes grow s xs =
     (if length (elems s) + length xs \<le> cap s then s\<lparr>elems := elems s @ xs\<rparr>
      else \<lparr>elems = elems s @ xs, cap = grow (cap s) (length (elems s) + length xs)\<rparr>)"

subsection \<open>itoa\<close>

text \<open>
  The loop of \<open>itoa\<close> over the scratch array \<open>b\<close> (twenty bytes), the index \<open>bp\<close>,
  the number \<open>i\<close> and the width \<open>wid\<close>. A store outside the array panics.
\<close>

function itoa_loop :: "char list \<Rightarrow> int \<Rightarrow> int \<Rightarrow> int \<Rightarrow> (char list \<times> int \<times> int) option" where
  "itoa_loop b bp i wid =
     (if i \<ge> 10 \<or> wid > 1 then
        (let wid' = wid - 1;
             q = quot i 10
         in if 0 \<le> bp \<and> bp < int (length b)
            then itoa_loop (b[nat bp := byte (48 + i - q * 10)]) (bp - 1) q wid'
            else None)
      else Some (b, bp, i))"
  by pat_completeness auto
termination
proof (relation "measure (\<lambda>(b, bp, i, wid). nat \<bar>i\<bar> + nat wid)", goal_cases)
  case 1
  show ?case by simp
next
  case (2 b bp i wid x xa)
  have "\<bar>i\<bar> div 10 \<le> \<bar>i\<bar>" by simp
  moreover have "10 \<le> i \<Longrightarrow> \<bar>i\<bar> div 10 < \<bar>i\<bar>" by simp
  ultimately show ?case using 2
    by (auto simp: quot_def abs_mult sgn_if split: if_splits)
qed

definition itoa :: "(nat \<Rightarrow> nat \<Rightarrow> nat) \<Rightarrow> slice \<Rightarrow> int \<Rightarrow> int \<Rightarrow> slice option" where
  "itoa grow buf i wid =
     (let b = replicate 20 (CHR 0x00);
          bp = int (length b) - 1
      in case itoa_loop b bp i wid of
           None \<Rightarrow> None
         | Some (b, bp, i) \<Rightarrow>
             if 0 \<le> bp \<and> bp < int (length b)
             then Some (append_bytes grow buf (drop (nat bp) (b[nat bp := byte (48 + i)])))
             else None)"

subsection \<open>formatHeader\<close>

text \<open>
  A \<open>time.Time\<close> is read only through \<open>Date\<close>, \<open>Clock\<close>, \<open>Nanosecond\<close> and \<open>UTC\<close>:
  it is modelled by its calendar fields in its own location and in UTC.
\<close>

record civil =
  year :: int
  month :: int
  day :: int
  hour :: int
  minute :: int
  second :: int
  nanosecond :: int

record gotime =
  loc :: civil
  utc :: civil

definition UTC :: "gotime \<Rightarrow> gotime" where
  "UTC t = t\<lparr>loc := utc t\<rparr>"

definition Date :: "gotime \<Rightarrow> int \<times> int \<times> int" where
  "Date t = (year (loc t), month (loc t), day (loc t))"

definition Clock :: "gotime \<Rightarrow> int \<times> int \<times> int" where
  "Clock t = (hour (loc t), minute (loc t), second (loc t))"

definition Nanosecond :: "gotime \<Rightarrow> int" where
  "Nanosecond t = nanosecond (loc t)"

text \<open>
  The scan for the last separator: \<open>for i := len(file) - 1; i > 0; i--\<close>. The index is a
  natural number here; for the empty string both the source (\<open>i = -1\<close>) and the model
  (\<open>i = 0\<close>) skip the loop.
\<close>

fun short_scan :: "string \<Rightarrow> nat \<Rightarrow> string" where
  "short_scan file 0 = file"
| "short_scan file (Suc n) =
     (if file ! Suc n = CHR ''/'' then drop (Suc n + 1) file else short_scan file n)"

definition short_file :: "string \<Rightarrow> string" where
  "short_file file = short_scan file (length file - 1)"

definition formatHeader ::
  "(nat \<Rightarrow> nat \<Rightarrow> nat) \<Rightarrow> slice \<Rightarrow> gotime \<Rightarrow> string \<Rightarrow> int \<Rightarrow> string \<Rightarrow> string \<Rightarrow> int \<Rightarrow> slice option" where
  "formatHeader grow buf t prefix flag levelStr file line = do {
     let buf = append_bytes grow buf prefix;
     let buf = append_bytes grow buf levelStr;
     buf \<leftarrow>
       (if flag AND (Ldate OR Ltime OR Lmicroseconds) \<noteq> 0 then do {
          let t = (if flag AND LUTC \<noteq> 0 then UTC t else t);
          buf \<leftarrow>
            (if flag AND Ldate \<noteq> 0 then
               (case Date t of (yr, mon, dy) \<Rightarrow> do {
                  buf \<leftarrow> itoa grow buf yr 4;
                  let buf = append_bytes grow buf ''/'';
                  buf \<leftarrow> itoa grow buf (mon::int) 2;
                  let buf = append_bytes grow buf ''/'';
                  buf \<leftarrow> itoa grow buf dy 2;
                  Some (append_bytes grow buf '' '')
                })
             else Some buf);
          (if flag AND (Ltime OR Lmicroseconds) \<noteq> 0 then
             (case Clock t of (hr, mn, sec) \<Rightarrow> do {
                buf \<leftarrow> itoa grow buf hr 2;
                let buf = append_bytes grow buf '':'';
                buf \<leftarrow> itoa grow buf mn 2;
                let buf = append_bytes grow buf '':'';
                buf \<leftarrow> itoa grow buf sec 2;
                buf \<leftarrow>
                  (if flag AND Lmicroseconds \<noteq> 0 then
                     itoa grow (append_bytes grow buf ''.'') (quot (Nanosecond t) 1000) 6
                   else Some buf);
                Some (append_bytes grow buf '' '')
              })
           else Some buf)
        }
        else Some buf);
     (if flag AND (Lshortfile OR Llongfile) \<noteq> 0 then do {
        let file = (if flag AND Lshortfile \<noteq> 0 then short_file file else file);
        let buf = append_bytes grow buf file;
        let buf = append_bytes grow buf '':'';
        buf \<leftarrow> itoa grow buf line (- 1);
        Some (append_bytes grow buf '': '')
      }
      else Some buf)
   }"

subsection \<open>The buffer pool\<close>

text \<open>
  \<open>bufferPool\<close> is a \<open>sync.Pool\<close> of byte slices: here the list of the pooled slices.
  \<open>Get\<close> hands out a pooled slice when there is one (the first of the list) and
  otherwise what \<open>New\<close> makes, a nil slice; \<open>Put\<close> adds a slice.
\<close>

type_synonym pool = "slice list"

definition pool_Get :: "pool \<Rightarrow> slice \<times> pool" where
  "pool_Get bufferPool = (case bufferPool of [] \<Rightarrow> (nil_slice, []) | p # ps \<Rightarrow> (p, ps))"

definition pool_Put :: "slice \<Rightarrow> pool \<Rightarrow> pool" where
  "pool_Put p bufferPool = p # bufferPool"

definition getBuffer :: "pool \<Rightarrow> slice \<times> pool" where
  "getBuffer bufferPool =
     (case pool_Get bufferPool of (p, bufferPool') \<Rightarrow> (p\<lparr>elems := take 0 (elems p)\<rparr>, bufferPool'))"

definition putBuffer :: "slice \<Rightarrow> pool \<Rightarrow> pool" where
  "putBuffer p bufferPool =
     (let p = (if cap p > push_bit 10 64 then nil_slice else p)
      in pool_Put p bufferPool)"

subsection \<open>Sinks and the logger\<close>

text \<open>
  An \<open>error\<close> is opaque apart from being nil (\<open>None\<close>) or not. An \<open>io.Writer\<close> is either
  \<open>io.Discard\<close> or a sink with a state of type \<open>'w\<close> and a \<open>Write\<close> method; a nil
  interface is \<open>None\<close>.
\<close>

datatype error = Err string

datatype 'w Writer =
  Discard
| Sink "'w \<Rightarrow> string \<Rightarrow> 'w \<times> nat \<times> error option" 'w

fun Write :: "'w Writer \<Rightarrow> string \<Rightarrow> 'w Writer \<times> nat \<times> error option" where
  "Write Discard p = (Discard, length p, None)"
| "Write (Sink f s) p = (case f s p of (s', n, err) \<Rightarrow> (Sink f s', n, err))"

record 'w Logger =
  out :: "'w Writer option"
  prefix :: "string option"
  flag :: "32 word"
  isDiscard :: bool
  minLevel :: "32 word"

definition new_Logger :: "'w Logger" where
  "new_Logger = \<lparr>out = None, prefix = None, flag = 0, isDiscard = False, minLevel = 0\<rparr>"

definition SetOutput :: "'w Writer option \<Rightarrow> 'w Logger \<Rightarrow> 'w Logger" where
  "SetOutput w l =
     l\<lparr>out := w, isDiscard := (case w of Some Discard \<Rightarrow> True | _ \<Rightarrow> False)\<rparr>"

definition Flags :: "'w Logger \<Rightarrow> int" where
  "Flags l = sint (flag l)"

definition SetFlags :: "int \<Rightarrow> 'w Logger \<Rightarrow> 'w Logger" where
  "SetFlags x l = l\<lparr>flag := word_of_int x\<rparr>"

definition Prefix :: "'w Logger \<Rightarrow> string" where
  "Prefix l = (case prefix l of Some p \<Rightarrow> p | None \<Rightarrow> [])"

definition SetPrefix :: "string \<Rightarrow> 'w Logger \<Rightarrow> 'w Logger" where
  "SetPrefix p l = l\<lparr>prefix := Some p\<rparr>"

definition Level :: "'w Logger \<Rightarrow> Level" where
  "Level l = ucast (minLevel l)"

definition SetLevel :: "Level \<Rightarrow> 'w Logger \<Rightarrow> 'w Logger" where
  "SetLevel level l = l\<lparr>minLevel := ucast level\<rparr>"

definition Writer :: "'w Logger \<Rightarrow> 'w Writer option" where
  "Writer l = out l"

definition New :: "'w Writer option \<Rightarrow> string \<Rightarrow> int \<Rightarrow> Level \<Rightarrow> 'w Logger" where
  "New w p x level = SetLevel level (SetFlags x (SetPrefix p (SetOutput w new_Logger)))"

subsection \<open>The write path\<close>

text \<open>
  What one call of \<open>output\<close> takes from outside the package: the clock reading of
  \<open>time.Now\<close>, the answers of \<open>runtime.Caller\<close> (file, line, ok) and of
  \<open>runtime.CallersFrames\<close> (file, line), and the runtime's capacity growth.
\<close>

record env =
  Now :: gotime
  Caller :: "int \<Rightarrow> string \<times> int \<times> bool"
  FrameOf :: "nat \<Rightarrow> string \<times> int"
  grow :: "nat \<Rightarrow> nat \<Rightarrow> nat"

definition newline :: char where
  "newline = CHR 0x0A"

text \<open>
  \<open>fmt.Appendln\<close> is the standard library's: it appends the operands in their default
  format, a space between every two of them, and a newline. An operand is given here by
  its default format, a string.
\<close>

fun sp_join :: "string list \<Rightarrow> string" where
  "sp_join [] = []"
| "sp_join [x] = x"
| "sp_join (x # xs) = x @ '' '' @ sp_join xs"

definition Appendln :: "(nat \<Rightarrow> nat \<Rightarrow> nat) \<Rightarrow> slice \<Rightarrow> string list \<Rightarrow> slice" where
  "Appendln grw b v = append_bytes grw b (sp_join v @ [newline])"

definition levelStr_of :: "Level \<Rightarrow> string" where
  "levelStr_of level =
     (if level = DEBUG then ''[DEBUG] ''
      else if level = INFO then ''[INFO]  ''
      else if level = ERROR then ''[ERROR] ''
      else ''[?????] '')"

definition caller_location :: "env \<Rightarrow> int \<Rightarrow> nat \<Rightarrow> int \<Rightarrow> string \<times> int" where
  "caller_location e flg pc calldepth =
     (if flg AND (Lshortfile OR Llongfile) \<noteq> 0 then
        (if pc = 0 then
           (case Caller e calldepth of (file, line, ok) \<Rightarrow>
              if \<not> ok then (''???'', 0) else (file, line))
         else
           (case FrameOf e pc of (file, line) \<Rightarrow>
              ((if file = [] then ''???'' else file), line)))
      else ([], 0))"

text \<open>
  The method \<open>output\<close> of \<open>Logger\<close>, on the logger and the pool. The result is the returned error with the new
  logger (its sink has taken the write) and the new pool; \<open>None\<close> is a panic.
\<close>

definition Logger_output ::
  "env \<Rightarrow> Level \<Rightarrow> nat \<Rightarrow> int \<Rightarrow> (slice \<Rightarrow> slice) \<Rightarrow> 'w Logger \<times> pool
     \<Rightarrow> (error option \<times> 'w Logger \<times> pool) option" where
  "Logger_output e level pc calldepth appendOutput s =
     (case s of (l, bufferPool) \<Rightarrow>
        if sint (ucast level :: 32 word) < sint (minLevel l) then Some (None, l, bufferPool)
        else if isDiscard l then Some (None, l, bufferPool)
        else
          (let now = Now e;
               prefix = Prefix l;
               flg = Flags l;
               (file, line) = caller_location e flg pc calldepth;
               levelStr = levelStr_of level;
               (buf, bufferPool) = getBuffer bufferPool
           in case formatHeader (grow e) buf now prefix flg levelStr file line of
                None \<Rightarrow> None
              | Some buf \<Rightarrow>
                  (let buf = appendOutput buf;
                       buf = (if length (elems buf) = 0 \<or> elems buf ! (length (elems buf) - 1) \<noteq> newline
                              then append_bytes (grow e) buf [newline] else buf)
                   in case out l of
                        None \<Rightarrow> None
                      | Some w \<Rightarrow>
                          (case Write w (elems buf) of (w', n, err) \<Rightarrow>
                             Some (err, l\<lparr>out := Some w'\<rparr>, putBuffer buf bufferPool)))))"

text \<open>The emitters have no result: they drop what \<open>output\<close> returns.\<close>

definition Debug :: "env \<Rightarrow> string list \<Rightarrow> 'w Logger \<times> pool \<Rightarrow> (unit \<times> 'w Logger \<times> pool) option" where
  "Debug e v s =
     (case Logger_output e DEBUG 0 2 (\<lambda>b. Appendln (grow e) b v) s of
        None \<Rightarrow> None
      | Some (err, s') \<Rightarrow> Some ((), s'))"

definition Info :: "env \<Rightarrow> string list \<Rightarrow> 'w Logger \<times> pool \<Rightarrow> (unit \<times> 'w Logger \<times> pool) option" where
  "Info e v s =
     (case Logger_output e INFO 0 2 (\<lambda>b. Appendln (grow e) b v) s of
        None \<Rightarrow> None
      | Some (err, s') \<Rightarrow> Some ((), s'))"

definition Error :: "env \<Rightarrow> string list \<Rightarrow> 'w Logger \<times> pool \<Rightarrow> (unit \<times> 'w Logger \<times> pool) option" where
  "Error e v s =
     (case Logger_output e ERROR 0 2 (\<lambda>b. Appendln (grow e) b v) s of
        None \<Rightarrow> None
      | Some (err, s') \<Rightarrow> Some ((), s'))"

subsection \<open>Sinks and clocks used in the examples\<close>

text \<open>A sink that keeps what it is given, as a \<open>bytes.Buffer\<close> does.\<close>

definition buffer_write :: "string \<Rightarrow> string \<Rightarrow> string \<times> nat \<times> error option" where
  "buffer_write s p = (s @ p, length p, None)"

text \<open>A sink that counts the calls of its \<open>Write\<close> and fails every one of them.\<close>

definition failing_write :: "nat \<Rightarrow> string \<Rightarrow> nat \<times> nat \<times> error option" where
  "failing_write calls p = (Suc calls, 0, Some (Err ''closed''))"

definition double_cap :: "nat \<Rightarrow> nat \<Rightarrow> nat" where
  "double_cap c n = max (2 * c) n"

definition clock_20240102 :: gotime where
  "clock_20240102 =
     (let c = \<lparr>year = 2024, month = 1, day = 2, hour = 3, minute = 4, second = 5, nanosecond = 0\<rparr>
      in \<lparr>loc = c, utc = c\<rparr>)"

definition env0 :: env where
  "env0 = \<lparr>Now = clock_20240102,
           Caller = (\<lambda>depth. (''/a/b/c.ext'', 42, True)),
           FrameOf = (\<lambda>pc. (''/a/b/c.ext'', 42)),
           grow = double_cap\<rparr>"

subsection \<open>Decimal numerals and the layout of a line, for the statements\<close>

text \<open>
  The decimal digits of a natural number, and padding with zeros on the left to a
  width: what the specification says \<open>itoa\<close> appends.
\<close>

definition digit_char :: "nat \<Rightarrow> char" where
  "digit_char d = char_of (48 + d)"

fun decimal :: "nat \<Rightarrow> string" where
  "decimal n = (if n < 10 then [digit_char n] else decimal (n div 10) @ [digit_char (n mod 10)])"

declare decimal.simps [simp del]

definition zero_pad :: "nat \<Rightarrow> string \<Rightarrow> string" where
  "zero_pad w ds = replicate (w - length ds) (CHR ''0'') @ ds"

text \<open>The number that a string of decimal digits denotes.\<close>

definition digit_value :: "char \<Rightarrow> nat" where
  "digit_value c = of_char c - 48"

definition decimal_value :: "string \<Rightarrow> nat" where
  "decimal_value ds = foldl (\<lambda>a c. 10 * a + digit_value c) 0 ds"

text \<open>The bytes that \<open>itoa\<close> appends, read off its loop.\<close>

definition itoa_bytes :: "int \<Rightarrow> int \<Rightarrow> string" where
  "itoa_bytes i wid =
     (case itoa_loop (replicate 20 (CHR 0x00)) 19 i wid of
        None \<Rightarrow> []
      | Some (b, bp, i') \<Rightarrow> drop (nat bp) (b[nat bp := byte (48 + i')]))"

text \<open>The text of a header, field by field, in the order of \<open>formatHeader\<close>.\<close>

definition date_text :: "gotime \<Rightarrow> int \<Rightarrow> string" where
  "date_text t flg =
     (if flg AND Ldate \<noteq> 0
      then itoa_bytes (year (loc t)) 4 @ ''/'' @ itoa_bytes (month (loc t)) 2 @ ''/''
           @ itoa_bytes (day (loc t)) 2 @ '' ''
      else [])"

definition clock_text :: "gotime \<Rightarrow> int \<Rightarrow> string" where
  "clock_text t flg =
     (if flg AND (Ltime OR Lmicroseconds) \<noteq> 0
      then itoa_bytes (hour (loc t)) 2 @ '':'' @ itoa_bytes (minute (loc t)) 2 @ '':''
           @ itoa_bytes (second (loc t)) 2
           @ (if flg AND Lmicroseconds \<noteq> 0
              then ''.'' @ itoa_bytes (quot (nanosecond (loc t)) 1000) 6 else [])
           @ '' ''
      else [])"

definition stamp_text :: "gotime \<Rightarrow> int \<Rightarrow> string" where
  "stamp_text t flg =
     (if flg AND (Ldate OR Ltime OR Lmicroseconds) \<noteq> 0
      then (let t' = (if flg AND LUTC \<noteq> 0 then UTC t else t)
            in date_text t' flg @ clock_text t' flg)
      else [])"

definition location_text :: "int \<Rightarrow> string \<Rightarrow> int \<Rightarrow> string" where
  "location_text flg file line =
     (if flg AND (Lshortfile OR Llongfile) \<noteq> 0
      then (if flg AND Lshortfile \<noteq> 0 then short_file file else file)
           @ '':'' @ itoa_bytes line (- 1) @ '': ''
      else [])"

definition header_text :: "gotime \<Rightarrow> string \<Rightarrow> int \<Rightarrow> string \<Rightarrow> string \<Rightarrow> int \<Rightarrow> string" where
  "header_text t p flg levelStr file line =
     p @ levelStr @ stamp_text t flg @ location_text flg file line"

text \<open>
  The values that reach \<open>output\<close> from outside are Go \<open>int\<close>s: the fields of the clock
  reading and the line number of the caller are in the 64-bit range.
\<close>

definition civil_ok :: "civil \<Rightarrow> bool" where
  "civil_ok c \<longleftrightarrow>
     int64 (year c) \<and> int64 (month c) \<and> int64 (day c) \<and> int64 (hour c)
     \<and> int64 (minute c) \<and> int64 (second c) \<and> int64 (nanosecond c)"

definition time_ok :: "gotime \<Rightarrow> bool" where
  "time_ok t \<longleftrightarrow> civil_ok (loc t) \<and> civil_ok (utc t)"

definition inputs_ok :: "env \<Rightarrow> int \<Rightarrow> nat \<Rightarrow> int \<Rightarrow> bool" where
  "inputs_ok e flg pc calldepth \<longleftrightarrow>
     time_ok (Now e) \<and> int64 (snd (caller_location e flg pc calldepth))"

text \<open>The two gates at the head of \<open>output\<close>.\<close>

definition below_min :: "Level \<Rightarrow> 'w Logger \<Rightarrow> bool" where
  "below_min level l \<longleftrightarrow> sint (ucast level :: 32 word) < sint (minLevel l)"

definition gated :: "Level \<Rightarrow> 'w Logger \<Rightarrow> bool" where
  "gated level l \<longleftrightarrow> below_min level l \<or> isDiscard l"

text \<open>The closing step of \<open>output\<close>: a newline is appended unless one ends the buffer.\<close>

definition end_line :: "(nat \<Rightarrow> nat \<Rightarrow> nat) \<Rightarrow> slice \<Rightarrow> slice" where
  "end_line grw buf =
     (if length (elems buf) = 0 \<or> elems buf ! (length (elems buf) - 1) \<noteq> newline
      then append_bytes grw buf [newline] else buf)"

text \<open>The line that an emitter hands to the sink: the header, the operands, a newline.\<close>

definition line_text :: "env \<Rightarrow> Level \<Rightarrow> nat \<Rightarrow> int \<Rightarrow> 'w Logger \<Rightarrow> string list \<Rightarrow> string" where
  "line_text e level pc calldepth l v =
     (case caller_location e (Flags l) pc calldepth of (file, line) \<Rightarrow>
        header_text (Now e) (Prefix l) (Flags l) (levelStr_of level) file line
        @ sp_join v @ [newline])"

text \<open>
  The specification's words for the short file name: the substring after the last path
  separator.
\<close>

definition after_last_sep :: "string \<Rightarrow> string" where
  "after_last_sep file = rev (takeWhile (\<lambda>c. c \<noteq> CHR ''/'') (rev file))"

text \<open>The number of newlines that end a byte sequence.\<close>

definition trailing_newlines :: "string \<Rightarrow> nat" where
  "trailing_newlines bs = length (takeWhile (\<lambda>c. c = newline) (rev bs))"

section \<open>Properties\<close>

subsection \<open>itoa renders decimal numerals\<close>

lemma digit_char_0: "digit_char 0 = CHR ''0''"
  by code_simp

lemma quot_nonneg: "0 \<le> i \<Longrightarrow> quot i 10 = i div 10"
  by (simp add: quot_def sgn_if)

lemma byte_digit: "0 \<le> i \<Longrightarrow> byte (48 + i - quot i 10 * 10) = digit_char (nat i mod 10)"
proof -
  assume h: "0 \<le> i"
  have "48 + i - (i div 10) * 10 = 48 + i mod 10"
    by (simp add: minus_div_mult_eq_mod algebra_simps)
  moreover have "i mod 10 = int (nat i mod 10)" using h
    by (simp add: zmod_int)
  ultimately have "48 + i - quot i 10 * 10 = int (48 + nat i mod 10)"
    using h by (simp add: quot_nonneg)
  then have "char_of (48 + i - quot i 10 * 10) = char_of (48 + nat i mod 10)"
    by (simp only: char_of_nat)
  then show ?thesis by (simp add: byte_def digit_char_def)
qed

lemma byte_small: "0 \<le> i \<Longrightarrow> i < 10 \<Longrightarrow> byte (48 + i) = digit_char (nat i)"
proof -
  assume h: "0 \<le> i"
  then have "48 + i = int (48 + nat i)" by simp
  then have "char_of (48 + i) = char_of (48 + nat i)"
    by (simp only: char_of_nat)
  then show ?thesis by (simp add: byte_def digit_char_def)
qed

lemma length_decimal_pos: "Suc 0 \<le> length (decimal n)"
  by (subst decimal.simps) simp

lemma zero_pad_snoc:
  "zero_pad (nat (wid - 1)) xs @ [d] = zero_pad (nat wid) (xs @ [d])"
proof -
  have "nat (wid - 1) - length xs = nat wid - Suc (length xs)" by simp
  then show ?thesis by (simp add: zero_pad_def)
qed

lemma zero_pad_zero:
  "1 < wid \<Longrightarrow> zero_pad (nat (wid - 1)) [CHR ''0''] @ [d] = zero_pad (nat wid) [d]"
proof -
  assume h: "1 < wid"
  define k where "k = nat wid - 2"
  have w: "nat wid = Suc (Suc k)" "nat (wid - 1) = Suc k" using h by (simp_all add: k_def)
  show ?thesis unfolding w by (simp add: zero_pad_def replicate_append_same)
qed

lemma itoa_loop_spec:
  "0 \<le> i \<Longrightarrow> length b = 20 \<Longrightarrow> 0 \<le> bp \<Longrightarrow> bp < 20
   \<Longrightarrow> int (length (decimal (nat i))) \<le> bp + 1 \<Longrightarrow> wid \<le> bp + 1
   \<Longrightarrow> \<exists>b' bp' i'. itoa_loop b bp i wid = Some (b', bp', i') \<and> 0 \<le> bp' \<and> bp' < 20
         \<and> length b' = 20
         \<and> drop (nat bp') (b'[nat bp' := byte (48 + i')])
            = zero_pad (nat wid) (decimal (nat i)) @ drop (nat bp + 1) b"
proof (induction b bp i wid rule: itoa_loop.induct)
  case (1 b bp i wid)
  show ?case
  proof (cases "i \<ge> 10 \<or> wid > 1")
    case False
    then have small: "i < 10" and w: "wid \<le> 1" by auto
    have "nat i < 10" using small by simp
    then have dec: "decimal (nat i) = [digit_char (nat i)]"
      by (subst decimal.simps) simp
    have "drop (nat bp) (b[nat bp := byte (48 + i)]) = byte (48 + i) # drop (nat bp + 1) b"
      using 1(3,4,5) by (simp add: drop_update_cancel Cons_nth_drop_Suc[symmetric] upd_conv_take_nth_drop)
    then show ?thesis using False 1(2-) small w dec
      by (subst itoa_loop.simps) (simp add: byte_small zero_pad_def)
  next
    case True
    let ?q = "quot i 10"
    let ?d = "byte (48 + i - ?q * 10)"
    have q: "?q = i div 10" using 1(2) by (rule quot_nonneg)
    have q0: "0 \<le> ?q" using 1(2) q by simp
    have dd: "?d = digit_char (nat i mod 10)" using 1(2) by (rule byte_digit)
    have nq: "nat ?q = nat i div 10" using 1(2) q by (simp add: nat_div_distrib)
    have bp1: "1 \<le> bp"
    proof (cases "10 \<le> i")
      case True
      then have "\<not> nat i < 10" by simp
      then have "decimal (nat i) = decimal (nat i div 10) @ [digit_char (nat i mod 10)]"
        by (subst decimal.simps) simp
      then have "length (decimal (nat i)) = Suc (length (decimal (nat i div 10)))"
        by simp
      then have "2 \<le> length (decimal (nat i))"
        using length_decimal_pos[of "nat i div 10"] by linarith
      then show ?thesis using 1(6) by linarith
    next
      case False
      then show ?thesis using True 1(7) by linarith
    qed
    have room: "int (length (decimal (nat ?q))) \<le> (bp - 1) + 1"
    proof (cases "10 \<le> i")
      case True
      then have "\<not> nat i < 10" by simp
      then have "decimal (nat i) = decimal (nat i div 10) @ [digit_char (nat i mod 10)]"
        by (subst decimal.simps) simp
      then show ?thesis using 1(6) nq by simp
    next
      case False
      then have "nat ?q = 0" using q 1(2) by simp
      then have "decimal (nat ?q) = [digit_char 0]" by (simp add: decimal.simps)
      then show ?thesis using bp1 by simp
    qed
    have "\<exists>b' bp' i'. itoa_loop (b[nat bp := ?d]) (bp - 1) ?q (wid - 1) = Some (b', bp', i')
          \<and> 0 \<le> bp' \<and> bp' < 20 \<and> length b' = 20
          \<and> drop (nat bp') (b'[nat bp' := byte (48 + i')])
            = zero_pad (nat (wid - 1)) (decimal (nat ?q)) @ drop (nat (bp - 1) + 1) (b[nat bp := ?d])"
      using 1(3,4,5,7) bp1 room q0 True
      by (intro "1.IH"[OF True refl refl]) simp_all
    then obtain b' bp' i' where
      r: "itoa_loop (b[nat bp := ?d]) (bp - 1) ?q (wid - 1) = Some (b', bp', i')"
      and bnd: "0 \<le> bp'" "bp' < 20" "length b' = 20"
      and eq: "drop (nat bp') (b'[nat bp' := byte (48 + i')])
            = zero_pad (nat (wid - 1)) (decimal (nat ?q)) @ drop (nat (bp - 1) + 1) (b[nat bp := ?d])"
      by blast
    have step: "itoa_loop b bp i wid = Some (b', bp', i')"
      using True 1(3,4,5) r by (subst itoa_loop.simps) (simp add: Let_def)
    have idx: "nat (bp - 1) + 1 = nat bp" using bp1 by simp
    have tail: "drop (nat bp) (b[nat bp := ?d]) = ?d # drop (nat bp + 1) b"
      using 1(3,4,5) by (simp add: upd_conv_take_nth_drop)
    have pad: "zero_pad (nat (wid - 1)) (decimal (nat ?q)) @ [?d] = zero_pad (nat wid) (decimal (nat i))"
    proof (cases "10 \<le> i")
      case True
      then have "\<not> nat i < 10" by simp
      then have "decimal (nat i) = decimal (nat ?q) @ [?d]"
        using nq dd by (subst decimal.simps) simp
      then show ?thesis by (simp only: zero_pad_snoc)
    next
      case False
      then have z: "nat ?q = 0" using q 1(2) by simp
      have dz: "decimal (nat ?q) = [CHR ''0'']" unfolding z by (simp add: decimal.simps digit_char_0)
      have "nat i < 10" using False by simp
      then have di: "decimal (nat i) = [?d]" using dd by (subst decimal.simps) simp
      have w2: "1 < wid" using False True by simp
      show ?thesis using zero_pad_zero[OF w2, of ?d] dz di by simp
    qed
    show ?thesis using step bnd eq idx tail pad by simp
  qed
qed


lemma length_decimal_le: "n < 10 ^ k \<Longrightarrow> 0 < k \<Longrightarrow> length (decimal n) \<le> k"
proof (induction n arbitrary: k rule: decimal.induct)
  case (1 n)
  show ?case
  proof (cases "n < 10")
    case True
    then show ?thesis using 1(3) by (subst decimal.simps) simp
  next
    case False
    then obtain j where k: "k = Suc j" using 1(3) by (cases k) auto
    have j: "0 < j" using False 1(2) k by (cases j) auto
    have "n div 10 < 10 ^ j" using 1(2) k by (simp add: less_mult_imp_div_less mult.commute)
    then have "length (decimal (n div 10)) \<le> j" using "1.IH"[OF False _ j] by simp
    then show ?thesis using False k by (subst decimal.simps) simp
  qed
qed

lemma length_decimal_int64: "0 \<le> i \<Longrightarrow> int64 i \<Longrightarrow> length (decimal (nat i)) \<le> 19"
proof -
  assume h: "0 \<le> i" "int64 i"
  have "i < 2 ^ 63" using h by (simp add: int64_def)
  also have "(2::int) ^ 63 < 10 ^ 19" by simp
  finally have "i < int (10 ^ 19)" by simp
  then have "nat i < 10 ^ 19" using h(1) by (simp only: nat_less_iff)
  then show ?thesis by (rule length_decimal_le) simp
qed

lemma digit_value_digit_char: "d < 10 \<Longrightarrow> digit_value (digit_char d) = d"
  by (simp add: digit_value_def digit_char_def)

lemma decimal_value_decimal: "decimal_value (decimal n) = n"
proof (induction n rule: decimal.induct)
  case (1 n)
  show ?case
  proof (cases "n < 10")
    case True
    then show ?thesis
      by (subst decimal.simps) (simp add: decimal_value_def digit_value_digit_char)
  next
    case False
    have "decimal_value (decimal (n div 10)) = n div 10" using False by (rule "1.IH")
    then show ?thesis using False
      by (subst decimal.simps) (simp add: decimal_value_def digit_value_digit_char)
  qed
qed

lemma quot_small: "i < 10 \<Longrightarrow> quot i 10 < 10"
proof (cases "0 \<le> i")
  case True
  assume "i < 10"
  then show ?thesis using True by (simp add: quot_nonneg)
next
  case False
  then have "quot i 10 = - (\<bar>i\<bar> div 10)" by (simp add: quot_def sgn_if)
  moreover have "0 \<le> \<bar>i\<bar> div 10" by simp
  ultimately show ?thesis by linarith
qed

lemma itoa_loop_small:
  "i < 10 \<Longrightarrow> length b = 20 \<Longrightarrow> 0 \<le> bp \<Longrightarrow> bp < 20 \<Longrightarrow> wid \<le> bp + 1
   \<Longrightarrow> \<exists>b' bp' i'. itoa_loop b bp i wid = Some (b', bp', i') \<and> 0 \<le> bp' \<and> bp' < 20
         \<and> length b' = 20"
proof (induction b bp i wid rule: itoa_loop.induct)
  case (1 b bp i wid)
  show ?case
  proof (cases "i \<ge> 10 \<or> wid > 1")
    case False
    then show ?thesis using 1(2-) by (subst itoa_loop.simps) simp
  next
    case True
    then have w: "1 < wid" using 1(2) by simp
    let ?q = "quot i 10"
    let ?d = "byte (48 + i - ?q * 10)"
    have "\<exists>b' bp' i'. itoa_loop (b[nat bp := ?d]) (bp - 1) ?q (wid - 1) = Some (b', bp', i')
          \<and> 0 \<le> bp' \<and> bp' < 20 \<and> length b' = 20"
      using 1(2-) w quot_small[OF 1(2)]
      by (intro "1.IH"[OF True refl refl]) simp_all
    then show ?thesis using True 1(3,4,5)
      by (subst itoa_loop.simps) (simp add: Let_def)
  qed
qed

lemma itoa_Some:
  assumes "int64 i" "wid \<le> 19"
  shows "itoa g buf i wid = Some (append_bytes g buf (itoa_bytes i wid))"
proof -
  have "\<exists>b' bp' i'. itoa_loop (replicate 20 (CHR 0x00)) 19 i wid = Some (b', bp', i')
        \<and> 0 \<le> bp' \<and> bp' < 20 \<and> length b' = 20"
  proof (cases "i < 10")
    case True
    then show ?thesis using assms(2) by (intro itoa_loop_small) simp_all
  next
    case False
    then have nn: "0 \<le> i" by simp
    have len: "int (length (decimal (nat i))) \<le> 19 + 1"
      using length_decimal_int64[OF nn assms(1)] by simp
    show ?thesis
      using itoa_loop_spec[OF nn _ _ _ len, of "replicate 20 (CHR 0x00)" wid] assms(2)
      by auto
  qed
  then show ?thesis by (auto simp: itoa_def itoa_bytes_def)
qed

lemma itoa_bytes_nonneg:
  assumes "0 \<le> i" "int64 i" "wid \<le> 19"
  shows "itoa_bytes i wid = zero_pad (nat wid) (decimal (nat i))"
proof -
  have len: "int (length (decimal (nat i))) \<le> 19 + 1"
    using length_decimal_int64[OF assms(1,2)] by simp
  show ?thesis
    using itoa_loop_spec[OF assms(1) _ _ _ len, of "replicate 20 (CHR 0x00)" wid] assms(3)
    by (auto simp: itoa_bytes_def)
qed

subsection \<open>The header and the write path\<close>

lemma elems_append_bytes [simp]: "elems (append_bytes g s xs) = elems s @ xs"
  by (simp add: append_bytes_def)

lemma int64_quot: "int64 a \<Longrightarrow> int64 (quot a 1000)"
proof -
  assume h: "int64 a"
  have "\<bar>a\<bar> div 1000 \<le> \<bar>a\<bar>" by simp
  moreover have "\<bar>quot a 1000\<bar> = \<bar>a\<bar> div 1000" by (simp add: quot_def abs_mult sgn_if)
  ultimately show ?thesis using h unfolding int64_def by linarith
qed

lemma itoa_bind:
  "int64 i \<Longrightarrow> wid \<le> 19 \<Longrightarrow> (itoa g buf i wid \<bind> f) = f (append_bytes g buf (itoa_bytes i wid))"
  by (simp add: itoa_Some)

lemma civil_ok_fields:
  "civil_ok c \<Longrightarrow> int64 (year c)" "civil_ok c \<Longrightarrow> int64 (month c)" "civil_ok c \<Longrightarrow> int64 (day c)"
  "civil_ok c \<Longrightarrow> int64 (hour c)" "civil_ok c \<Longrightarrow> int64 (minute c)" "civil_ok c \<Longrightarrow> int64 (second c)"
  "civil_ok c \<Longrightarrow> int64 (quot (nanosecond c) 1000)"
  by (simp_all add: civil_ok_def int64_quot)

lemma formatHeader_text:
  assumes "time_ok t" "int64 line"
  shows "\<exists>s. formatHeader g buf t p flg levelStr file line = Some s
             \<and> elems s = elems buf @ header_text t p flg levelStr file line"
proof -
  have c: "civil_ok (loc t)" "civil_ok (utc t)" using assms(1) by (simp_all add: time_ok_def)
  show ?thesis
    using assms(2)
    by (simp add: formatHeader_def header_text_def stamp_text_def date_text_def clock_text_def
        location_text_def Date_def Clock_def Nanosecond_def UTC_def itoa_bind
        civil_ok_fields[OF c(1)] civil_ok_fields[OF c(2)] Let_def)
qed

lemma output_gated:
  "gated level l \<Longrightarrow> Logger_output e level pc calldepth ap (l, bufferPool) = Some (None, l, bufferPool)"
  by (auto simp: Logger_output_def gated_def below_min_def)

lemma output_run:
  assumes "\<not> gated level l" "inputs_ok e (Flags l) pc calldepth" "out l = Some w"
  shows "\<exists>hb. elems hb = (case caller_location e (Flags l) pc calldepth of (file, line) \<Rightarrow>
                  header_text (Now e) (Prefix l) (Flags l) (levelStr_of level) file line)
           \<and> Logger_output e level pc calldepth ap (l, bufferPool)
             = (let buf = end_line (grow e) (ap hb)
                in case Write w (elems buf) of (w', n, err) \<Rightarrow>
                     Some (err, l\<lparr>out := Some w'\<rparr>, putBuffer buf (snd (getBuffer bufferPool))))"
proof -
  obtain fl ln where loc: "caller_location e (Flags l) pc calldepth = (fl, ln)"
    by (cases "caller_location e (Flags l) pc calldepth")
  obtain b0 pool' where gb: "getBuffer bufferPool = (b0, pool')"
    by (cases "getBuffer bufferPool")
  have e0: "elems b0 = []" using gb by (auto simp: getBuffer_def split: prod.splits)
  have ok: "time_ok (Now e)" "int64 ln" using assms(2) loc by (simp_all add: inputs_ok_def)
  obtain hb where hb: "formatHeader (grow e) b0 (Now e) (Prefix l) (Flags l) (levelStr_of level) fl ln = Some hb"
    and htext: "elems hb = elems b0 @ header_text (Now e) (Prefix l) (Flags l) (levelStr_of level) fl ln"
    using formatHeader_text[OF ok] by blast
  have g: "\<not> sint (ucast level :: 32 word) < sint (minLevel l)" "\<not> isDiscard l"
    using assms(1) by (simp_all add: gated_def below_min_def)
  have "Logger_output e level pc calldepth ap (l, bufferPool)
             = (let buf = end_line (grow e) (ap hb)
                in case Write w (elems buf) of (w', n, err) \<Rightarrow>
                     Some (err, l\<lparr>out := Some w'\<rparr>, putBuffer buf (snd (getBuffer bufferPool))))"
    using g loc gb hb assms(3)
    by (simp add: Logger_output_def end_line_def Let_def)
  then show ?thesis using htext e0 loc by auto
qed

lemma end_line_Appendln: "end_line g (Appendln g' hb v) = Appendln g' hb v"
  by (simp add: end_line_def Appendln_def)

lemma emit_run:
  assumes "\<not> gated level l" "inputs_ok e (Flags l) pc calldepth" "out l = Some w"
  shows "\<exists>buf. elems buf = line_text e level pc calldepth l v
           \<and> Logger_output e level pc calldepth (\<lambda>b. Appendln (grow e) b v) (l, bufferPool)
             = (case Write w (elems buf) of (w', n, err) \<Rightarrow>
                     Some (err, l\<lparr>out := Some w'\<rparr>, putBuffer buf (snd (getBuffer bufferPool))))"
proof -
  obtain hb where
    htext: "elems hb = (case caller_location e (Flags l) pc calldepth of (file, line) \<Rightarrow>
                  header_text (Now e) (Prefix l) (Flags l) (levelStr_of level) file line)"
    and run: "Logger_output e level pc calldepth (\<lambda>b. Appendln (grow e) b v) (l, bufferPool)
             = (let buf = end_line (grow e) (Appendln (grow e) hb v)
                in case Write w (elems buf) of (w', n, err) \<Rightarrow>
                     Some (err, l\<lparr>out := Some w'\<rparr>, putBuffer buf (snd (getBuffer bufferPool))))"
    using output_run[OF assms, of "\<lambda>b. Appendln (grow e) b v" bufferPool] by blast
  have "elems (Appendln (grow e) hb v) = line_text e level pc calldepth l v"
    using htext by (simp add: Appendln_def line_text_def split: prod.splits)
  then show ?thesis using run by (auto simp: end_line_Appendln Let_def)
qed

subsection \<open>Configuration fields\<close>

lemma Level_SetLevel: "Level (SetLevel v l) = v"
  by (simp add: Level_def SetLevel_def ucast_down_ucast_id is_down)

lemma Flags_SetFlags: "- (2 ^ 31) \<le> x \<Longrightarrow> x < 2 ^ 31 \<Longrightarrow> Flags (SetFlags x l) = x"
  by (simp add: Flags_def SetFlags_def sint_sbintrunc' signed_take_bit_int_eq_self)

lemma sint_ucast_level: "sint (ucast (v :: 8 word) :: 32 word) = uint v"
proof -
  have u: "uint (ucast v :: 32 word) = uint v"
    by (simp add: uint_up_ucast is_up)
  have "uint v < 2 ^ 8" using uint_bounded[of v] by simp
  then have "uint v < 2 ^ 31" by simp
  moreover have "- (2 ^ 31) \<le> (0::int)" by simp
  then have "- (2 ^ 31) \<le> uint v" using uint_ge_0[of v] by (rule order_trans)
  ultimately have "signed_take_bit 31 (uint v) = uint v"
    by (simp add: signed_take_bit_int_eq_self)
  then show ?thesis using u by (simp add: sint_uint)
qed

lemma below_min_SetLevel: "below_min level (SetLevel m l) \<longleftrightarrow> level < m"
  by (simp add: below_min_def SetLevel_def word_less_def sint_ucast_level)

lemma flag_bits_range:
  assumes "x AND NOT 63 = 0"
  shows "0 \<le> x \<and> x < (64::int)"
proof -
  have m: "(63::int) = mask 6" by (simp add: mask_eq_exp_minus_1)
  have "take_bit 6 x = x"
  proof (rule bit_eqI)
    fix n
    have "\<not> bit (x AND NOT (mask 6)) n" using assms m by simp
    then show "bit (take_bit 6 x) n = bit x n"
      by (auto simp: bit_simps)
  qed
  moreover have "0 \<le> take_bit 6 x" by simp
  moreover have "take_bit 6 x < 2 ^ 6" by (rule take_bit_int_less_exp)
  ultimately show ?thesis by simp
qed

lemma flags_const: "(Ldate OR Ltime OR Lmicroseconds OR Llongfile OR Lshortfile OR LUTC) = 63"
  by (simp add: Ldate_def Ltime_def Lmicroseconds_def Llongfile_def Lshortfile_def LUTC_def)

subsection \<open>The short file name\<close>

lemma short_scan_none:
  "\<forall>i. 0 < i \<and> i \<le> n \<longrightarrow> file ! i \<noteq> CHR ''/'' \<Longrightarrow> short_scan file n = file"
  by (induction n) auto

lemma short_scan_sep:
  "0 < i \<Longrightarrow> i \<le> n \<Longrightarrow> file ! i = CHR ''/'' \<Longrightarrow> \<forall>j. i < j \<and> j \<le> n \<longrightarrow> file ! j \<noteq> CHR ''/''
   \<Longrightarrow> short_scan file n = drop (Suc i) file"
proof (induction n)
  case 0
  then show ?case by simp
next
  case (Suc n)
  show ?case
  proof (cases "i = Suc n")
    case True
    then show ?thesis using Suc.prems by simp
  next
    case False
    then have "i \<le> n" using Suc.prems by simp
    moreover have "file ! Suc n \<noteq> CHR ''/''" using Suc.prems False by simp
    ultimately show ?thesis using Suc by simp
  qed
qed

lemma short_file_unchanged:
  "\<forall>i. 0 < i \<and> i < length file \<longrightarrow> file ! i \<noteq> CHR ''/'' \<Longrightarrow> short_file file = file"
  unfolding short_file_def by (rule short_scan_none) auto

lemma short_file_after_last:
  "0 < i \<Longrightarrow> i < length file \<Longrightarrow> file ! i = CHR ''/''
   \<Longrightarrow> \<forall>j. i < j \<and> j < length file \<longrightarrow> file ! j \<noteq> CHR ''/''
   \<Longrightarrow> short_file file = drop (Suc i) file"
  unfolding short_file_def by (rule short_scan_sep) auto

lemma short_file_leading: "CHR ''/'' \<notin> set fl \<Longrightarrow> short_file (CHR ''/'' # fl) = CHR ''/'' # fl"
proof (rule short_file_unchanged, intro allI impI)
  fix i assume a: "CHR ''/'' \<notin> set fl" "0 < i \<and> i < length (CHR ''/'' # fl)"
  then obtain k where k: "i = Suc k" by (cases i) auto
  then have "k < length fl" using a by simp
  then have "fl ! k \<in> set fl" by (rule nth_mem)
  then have "fl ! k \<noteq> CHR ''/''" using a(1) by metis
  then show "(CHR ''/'' # fl) ! i \<noteq> CHR ''/''" using k by simp
qed

lemma short_scan_cases:
  "short_scan path n = path
   \<or> (\<exists>i. 0 < i \<and> i \<le> n \<and> path ! i = CHR ''/'' \<and> short_scan path n = drop (Suc i) path)"
proof (induction n)
  case 0
  show ?case by simp
next
  case (Suc n)
  show ?case
  proof (cases "path ! Suc n = CHR ''/''")
    case True
    then have "0 < Suc n \<and> Suc n \<le> Suc n \<and> path ! Suc n = CHR ''/''
               \<and> short_scan path (Suc n) = drop (Suc (Suc n)) path" by simp
    then show ?thesis by blast
  next
    case False
    then have "short_scan path (Suc n) = short_scan path n" by simp
    then show ?thesis using Suc.IH by (metis le_Suc_eq)
  qed
qed

lemma short_file_cases:
  "short_file path \<noteq> path
   \<Longrightarrow> \<exists>i. 0 < i \<and> i < length path \<and> path ! i = CHR ''/'' \<and> short_file path = drop (Suc i) path"
proof -
  assume a: "short_file path \<noteq> path"
  then obtain i where i: "0 < i" "i \<le> length path - 1" "path ! i = CHR ''/''"
      "short_file path = drop (Suc i) path"
    using short_scan_cases[of path "length path - 1"] by (auto simp: short_file_def)
  then have "i < length path" by linarith
  then show ?thesis using i by blast
qed

lemma short_file_split:
  assumes "xs \<noteq> []" "CHR ''/'' \<notin> set zs"
  shows "short_file (xs @ CHR ''/'' # zs) = zs"
proof -
  let ?f = "xs @ CHR ''/'' # zs"
  have "short_file ?f = drop (Suc (length xs)) ?f"
  proof (rule short_file_after_last)
    show "0 < length xs" using assms(1) by simp
    show "length xs < length ?f" by simp
    show "?f ! length xs = CHR ''/''" by simp
    show "\<forall>j. length xs < j \<and> j < length ?f \<longrightarrow> ?f ! j \<noteq> CHR ''/''"
    proof (intro allI impI)
      fix j assume j: "length xs < j \<and> j < length ?f"
      then obtain k where k: "j = length xs + Suc k" using less_iff_Suc_add by auto
      then have kl: "k < length zs" using j by simp
      have "?f ! j = zs ! k" unfolding k by (simp add: nth_append)
      moreover have "zs ! k \<in> set zs" using kl by (rule nth_mem)
      ultimately show "?f ! j \<noteq> CHR ''/''" using assms(2) by metis
    qed
  qed
  then show ?thesis by simp
qed

lemma after_last_sep_split:
  "CHR ''/'' \<notin> set zs \<Longrightarrow> after_last_sep (xs @ CHR ''/'' # zs) = zs"
proof -
  assume z: "CHR ''/'' \<notin> set zs"
  have "takeWhile (\<lambda>c. c \<noteq> CHR ''/'') (rev zs @ CHR ''/'' # rev xs)
        = rev zs @ takeWhile (\<lambda>c. c \<noteq> CHR ''/'') (CHR ''/'' # rev xs)"
    using z by (intro takeWhile_append2) auto
  then show ?thesis by (simp add: after_last_sep_def)
qed

lemma short_file_char:
  "short_file path = (if CHR ''/'' \<in> set (tl path) then after_last_sep path else path)"
proof (cases "CHR ''/'' \<in> set (tl path)")
  case True
  then obtain ys zs where sp: "tl path = ys @ CHR ''/'' # zs" and z: "CHR ''/'' \<notin> set zs"
    using split_list_last by fastforce
  then obtain c where f: "path = (c # ys) @ CHR ''/'' # zs" by (cases path) auto
  have "short_file path = zs" unfolding f using z by (intro short_file_split) simp_all
  moreover have "after_last_sep path = zs" unfolding f using z by (rule after_last_sep_split)
  ultimately show ?thesis using True by simp
next
  case False
  have "short_file path = path"
  proof (cases path)
    case Nil
    then show ?thesis by (simp add: short_file_def)
  next
    case (Cons c fl)
    have "\<forall>i. 0 < i \<and> i < length path \<longrightarrow> path ! i \<noteq> CHR ''/''"
    proof (intro allI impI)
      fix i assume i: "0 < i \<and> i < length path"
      then obtain k where k: "i = Suc k" by (cases i) auto
      then have "k < length fl" using i Cons by simp
      then have "fl ! k \<in> set fl" by (rule nth_mem)
      then have "fl ! k \<noteq> CHR ''/''" using False Cons by auto
      then show "path ! i \<noteq> CHR ''/''" using k Cons by simp
    qed
    then show ?thesis by (rule short_file_unchanged)
  qed
  then show ?thesis using False by simp
qed

subsection \<open>Headers with a caller location\<close>

lemma location_text_line:
  "flg AND (Lshortfile OR Llongfile) \<noteq> 0 \<Longrightarrow> 0 \<le> line \<Longrightarrow> int64 line \<Longrightarrow>
   location_text flg file line
     = (if flg AND Lshortfile \<noteq> 0 then short_file file else file) @ '':'' @ decimal (nat line) @ '': ''"
  by (simp add: location_text_def itoa_bytes_nonneg zero_pad_def)

lemma flag_or_nonzero:
  "(flg::int) AND a \<noteq> 0 \<Longrightarrow> flg AND (a OR b) \<noteq> 0"
  "(flg::int) AND b \<noteq> 0 \<Longrightarrow> flg AND (a OR b) \<noteq> 0"
  by (auto simp: bit_eq_iff bit_simps)

lemma header_with_location:
  assumes "time_ok t" "0 \<le> line" "int64 line" "flg AND (Lshortfile OR Llongfile) \<noteq> 0"
  shows "\<exists>s. formatHeader g buf t p flg levelStr path line = Some s
           \<and> elems s = elems buf @ p @ levelStr @ stamp_text t flg
               @ (if flg AND Lshortfile \<noteq> 0 then short_file path else path)
               @ '':'' @ decimal (nat line) @ '': ''"
  using formatHeader_text[OF assms(1,3), of g buf p flg levelStr path]
    location_text_line[OF assms(4,2,3), of path]
  by (simp add: header_text_def)

subsection \<open>Trailing newlines\<close>

lemma trailing_newlines_snoc:
  "trailing_newlines (bs @ [c]) = (if c = newline then Suc (trailing_newlines bs) else 0)"
  by (simp add: trailing_newlines_def)

lemma trailing_newlines_0:
  "trailing_newlines bs = 0 \<longleftrightarrow> bs = [] \<or> last bs \<noteq> newline"
  by (cases bs rule: rev_cases) (simp_all add: trailing_newlines_def)

lemma sp_join_snoc: "sp_join (vs @ [x]) = (if vs = [] then x else sp_join vs @ '' '' @ x)"
  by (induction vs rule: sp_join.induct) simp_all

lemma newline_not_space: "CHR '' '' \<noteq> newline"
  by (simp add: newline_def)

lemma sp_join_end:
  "(sp_join v = [] \<or> last (sp_join v) \<noteq> newline)
   \<longleftrightarrow> (v = [] \<or> last v = [] \<or> last (last v) \<noteq> newline)"
proof (cases v rule: rev_cases)
  case Nil
  then show ?thesis by simp
next
  case (snoc vs x)
  show ?thesis
  proof (cases "x = []")
    case True
    then show ?thesis using snoc by (simp add: sp_join_snoc newline_not_space)
  next
    case False
    then show ?thesis using snoc by (simp add: sp_join_snoc)
  qed
qed

lemma levelStr_of_last: "levelStr_of level \<noteq> [] \<and> last (levelStr_of level) = CHR '' ''"
  by (simp add: levelStr_of_def)

lemma header_text_last:
  "header_text t p flg (levelStr_of level) path line \<noteq> []
   \<and> last (header_text t p flg (levelStr_of level) path line) = CHR '' ''"
  using levelStr_of_last[of level]
  by (simp add: header_text_def stamp_text_def date_text_def clock_text_def location_text_def Let_def)

lemma line_text_newlines:
  "1 \<le> trailing_newlines (line_text e level pc calldepth l v)
   \<and> (trailing_newlines (line_text e level pc calldepth l v) = 1
        \<longleftrightarrow> (v = [] \<or> last v = [] \<or> last (last v) \<noteq> newline))"
proof -
  obtain fl ln where loc: "caller_location e (Flags l) pc calldepth = (fl, ln)"
    by (cases "caller_location e (Flags l) pc calldepth")
  let ?h = "header_text (Now e) (Prefix l) (Flags l) (levelStr_of level) fl ln"
  have lt: "line_text e level pc calldepth l v = (?h @ sp_join v) @ [newline]"
    using loc by (simp add: line_text_def)
  have h: "?h \<noteq> []" "last ?h = CHR '' ''" using header_text_last by blast+
  have "trailing_newlines (?h @ sp_join v) = 0 \<longleftrightarrow> (sp_join v = [] \<or> last (sp_join v) \<noteq> newline)"
    using h by (cases "sp_join v = []") (simp_all add: trailing_newlines_0 newline_not_space)
  then have "trailing_newlines (?h @ sp_join v) = 0
             \<longleftrightarrow> (v = [] \<or> last v = [] \<or> last (last v) \<noteq> newline)"
    by (simp only: sp_join_end)
  moreover have "trailing_newlines (line_text e level pc calldepth l v)
                 = Suc (trailing_newlines (?h @ sp_join v))"
    by (simp only: lt trailing_newlines_snoc refl if_True)
  ultimately show ?thesis by simp
qed

subsection \<open>Runs of the write path\<close>

lemma emitter_run:
  assumes "\<not> gated level l" "inputs_ok e (Flags l) 0 2" "out l = Some w"
  shows "\<exists>bufferPool'.
           (case Logger_output e level 0 2 (\<lambda>b. Appendln (grow e) b v) (l, bufferPool) of
              None \<Rightarrow> None | Some (err, s') \<Rightarrow> Some ((), s'))
           = Some ((), l\<lparr>out := Some (fst (Write w (line_text e level 0 2 l v)))\<rparr>, bufferPool')"
proof -
  obtain buf where b: "elems buf = line_text e level 0 2 l v"
    and run: "Logger_output e level 0 2 (\<lambda>b. Appendln (grow e) b v) (l, bufferPool)
             = (case Write w (elems buf) of (w', n, err) \<Rightarrow>
                     Some (err, l\<lparr>out := Some w'\<rparr>, putBuffer buf (snd (getBuffer bufferPool))))"
    using emit_run[OF assms] by blast
  show ?thesis unfolding run b by (simp add: split_beta)
qed

lemma output_writes_once:
  assumes "\<not> gated level l" "inputs_ok e (Flags l) pc calldepth" "out l = Some w"
  shows "\<exists>bytes bufferPool'.
           Logger_output e level pc calldepth appendOutput (l, bufferPool)
           = Some (snd (snd (Write w bytes)), l\<lparr>out := Some (fst (Write w bytes))\<rparr>, bufferPool')"
proof -
  obtain hb where
    run: "Logger_output e level pc calldepth appendOutput (l, bufferPool)
             = (let buf = end_line (grow e) (appendOutput hb)
                in case Write w (elems buf) of (w', n, err) \<Rightarrow>
                     Some (err, l\<lparr>out := Some w'\<rparr>, putBuffer buf (snd (getBuffer bufferPool))))"
    using output_run[OF assms, of appendOutput bufferPool] by blast
  have "Logger_output e level pc calldepth appendOutput (l, bufferPool)
        = Some (snd (snd (Write w (elems (end_line (grow e) (appendOutput hb))))),
                l\<lparr>out := Some (fst (Write w (elems (end_line (grow e) (appendOutput hb)))))\<rparr>,
                putBuffer (end_line (grow e) (appendOutput hb)) (snd (getBuffer bufferPool)))"
    unfolding run by (simp add: split_beta Let_def)
  then show ?thesis by blast
qed

lemma config_kept:
  "line_text e level pc calldepth (l\<lparr>out := x\<rparr>) v = line_text e level pc calldepth l v"
  "gated level (l\<lparr>out := x\<rparr>) = gated level l"
  "Flags (l\<lparr>out := x\<rparr>) = Flags l" "Prefix (l\<lparr>out := x\<rparr>) = Prefix l"
  "Level (l\<lparr>out := x\<rparr>) = Level l"
  by (simp_all add: line_text_def gated_def below_min_def Flags_def Prefix_def Level_def)

lemma levelStr_of_cases:
  "levelStr_of level \<in> {''[DEBUG] '', ''[INFO]  '', ''[ERROR] '', ''[?????] ''}"
  "length (levelStr_of level) = 8"
  "level \<notin> {DEBUG, INFO, ERROR} \<Longrightarrow> levelStr_of level = ''[?????] ''"
  by (simp_all add: levelStr_of_def)

subsection \<open>Facts for the examples\<close>

lemmas cfg_defs = New_def SetLevel_def SetFlags_def SetPrefix_def SetOutput_def new_Logger_def
  Flags_def Prefix_def

lemmas flag_defs = Ldate_def Ltime_def Lmicroseconds_def Llongfile_def Lshortfile_def LUTC_def LstdFlags_def

lemmas level_defs = DEBUG_def INFO_def ERROR_def

lemma clock_ok: "time_ok clock_20240102"
  by (simp add: time_ok_def civil_ok_def clock_20240102_def int64_def Let_def)

lemma getBuffer_Nil: "getBuffer [] = (nil_slice, [])"
  by (simp add: getBuffer_def pool_Get_def nil_slice_def)

lemma line_text_example:
  "line_text env0 INFO 0 2 (New (Some (Sink buffer_write [])) ''APP '' 0 DEBUG) v
   = ''APP [INFO]  '' @ sp_join v @ [newline]"
  by (simp add: line_text_def header_text_def stamp_text_def location_text_def caller_location_def
      cfg_defs flag_defs levelStr_of_def level_defs)

section \<open>The claims\<close>

text \<open>
  Claim C1, as stated, fails: \<open>Debug\<close>, \<open>Info\<close> and \<open>Error\<close> have no result. On a sink
  whose \<open>Write\<close> fails, \<open>Debug\<close> makes the one failing write and returns nothing to
  its caller.
\<close>

theorem emitter_drops_error_counterexample:
  "failing_write 0 ''[DEBUG] x\<newline>'' = (1, 0, Some (Err ''closed''))
   \<and> Debug env0 [''x''] (New (Some (Sink failing_write 0)) [] 0 DEBUG, [])
     = Some ((), New (Some (Sink failing_write 1)) [] 0 DEBUG,
             [\<lparr>elems = ''[DEBUG] x\<newline>'', cap = 16\<rparr>])"
  by (simp add: Debug_def Logger_output_def cfg_defs flag_defs level_defs levelStr_of_def
      caller_location_def getBuffer_def pool_Get_def nil_slice_def formatHeader_def append_bytes_def
      env0_def double_cap_def Appendln_def putBuffer_def pool_Put_def failing_write_def newline_def)

text \<open>
  Claim C1, amended. The method \<open>output\<close> returns the error of its single \<open>Write\<close> on the
  current sink when the call passes the gates (so the error is non-nil exactly when that
  write failed), and nil when the call is gated; the sink takes exactly one \<open>Write\<close>
  (no retry) and no other field of the logger changes. \<open>Debug\<close>, \<open>Info\<close> and \<open>Error\<close>
  make the same single write and return nothing: the error is dropped. A later call
  passes the same gates and renders the same line as if the earlier one had not happened.
\<close>

theorem write_error_returned:
  assumes "inputs_ok e (Flags l) pc calldepth" "inputs_ok e (Flags l) 0 2" "out l = Some w"
  shows "(\<not> gated level l \<longrightarrow>
            (\<exists>bytes bufferPool'.
               Logger_output e level pc calldepth appendOutput (l, bufferPool)
               = Some (snd (snd (Write w bytes)), l\<lparr>out := Some (fst (Write w bytes))\<rparr>, bufferPool')))
         \<and> (gated level l \<longrightarrow>
              Logger_output e level pc calldepth appendOutput (l, bufferPool) = Some (None, l, bufferPool))
         \<and> (\<not> gated DEBUG l \<longrightarrow>
            (\<exists>bufferPool'. Debug e v (l, bufferPool)
               = Some ((), l\<lparr>out := Some (fst (Write w (line_text e DEBUG 0 2 l v)))\<rparr>, bufferPool')))
         \<and> (\<not> gated INFO l \<longrightarrow>
            (\<exists>bufferPool'. Info e v (l, bufferPool)
               = Some ((), l\<lparr>out := Some (fst (Write w (line_text e INFO 0 2 l v)))\<rparr>, bufferPool')))
         \<and> (\<not> gated ERROR l \<longrightarrow>
            (\<exists>bufferPool'. Error e v (l, bufferPool)
               = Some ((), l\<lparr>out := Some (fst (Write w (line_text e ERROR 0 2 l v)))\<rparr>, bufferPool')))
         \<and> gated level (l\<lparr>out := Some w'\<rparr>) = gated level l
         \<and> line_text e level pc calldepth (l\<lparr>out := Some w'\<rparr>) v = line_text e level pc calldepth l v"
  using output_writes_once[OF _ assms(1,3), of level appendOutput bufferPool]
    output_gated[of level l e pc calldepth appendOutput bufferPool]
    emitter_run[OF _ assms(2,3), of DEBUG v bufferPool] emitter_run[OF _ assms(2,3), of INFO v bufferPool]
    emitter_run[OF _ assms(2,3), of ERROR v bufferPool]
  unfolding Debug_def Info_def Error_def by (simp add: config_kept)

theorem write_error_returned_witness:
  "inputs_ok env0 (Flags (New (Some (Sink failing_write 0)) ''APP '' 0 INFO)) 0 2
   \<and> out (New (Some (Sink failing_write 0)) ''APP '' 0 INFO) = Some (Sink failing_write 0)
   \<and> \<not> gated INFO (New (Some (Sink failing_write 0)) ''APP '' 0 INFO)
   \<and> \<not> gated ERROR (New (Some (Sink failing_write 0)) ''APP '' 0 INFO)
   \<and> gated DEBUG (New (Some (Sink failing_write 0)) ''APP '' 0 INFO)
   \<and> (\<exists>bufferPool'.
         Logger_output env0 INFO 0 2 (\<lambda>b. Appendln (grow env0) b [''started''])
           (New (Some (Sink failing_write 0)) ''APP '' 0 INFO, [])
         = Some (Some (Err ''closed''),
                 (New (Some (Sink failing_write 0)) ''APP '' 0 INFO)\<lparr>out := Some (Sink failing_write 1)\<rparr>,
                 bufferPool'))
   \<and> Logger_output env0 DEBUG 0 2 (\<lambda>b. Appendln (grow env0) b [''started''])
           (New (Some (Sink failing_write 0)) ''APP '' 0 INFO, [])
       = Some (None, New (Some (Sink failing_write 0)) ''APP '' 0 INFO, [])
   \<and> (\<exists>bufferPool'.
         Info env0 [''started''] (New (Some (Sink failing_write 0)) ''APP '' 0 INFO, [])
         = Some ((), (New (Some (Sink failing_write 0)) ''APP '' 0 INFO)\<lparr>out := Some (Sink failing_write 1)\<rparr>,
                 bufferPool'))
   \<and> (\<exists>bufferPool'.
         Error env0 [''started''] (New (Some (Sink failing_write 0)) ''APP '' 0 INFO, [])
         = Some ((), (New (Some (Sink failing_write 0)) ''APP '' 0 INFO)\<lparr>out := Some (Sink failing_write 1)\<rparr>,
                 bufferPool'))"
proof -
  let ?l = "New (Some (Sink failing_write 0)) ''APP '' 0 INFO"
  have h: "inputs_ok env0 (Flags ?l) 0 2" "out ?l = Some (Sink failing_write 0)"
    by (simp_all add: inputs_ok_def cfg_defs env0_def clock_ok caller_location_def flag_defs int64_def)
  have g: "\<not> gated INFO ?l" "\<not> gated ERROR ?l" "gated DEBUG ?l"
    by (simp_all add: gated_def below_min_def cfg_defs level_defs)
  note t1 = write_error_returned[OF h(1) h(1) h(2), of INFO "\<lambda>b. Appendln (grow env0) b [''started'']" "[]"
      "[''started'']"]
  note t2 = write_error_returned[OF h(1) h(1) h(2), of DEBUG "\<lambda>b. Appendln (grow env0) b [''started'']" "[]"
      "[''started'']"]
  have a: "\<exists>bufferPool'.
         Logger_output env0 INFO 0 2 (\<lambda>b. Appendln (grow env0) b [''started'']) (?l, [])
         = Some (Some (Err ''closed''), ?l\<lparr>out := Some (Sink failing_write 1)\<rparr>, bufferPool')"
    using t1 g by (simp add: failing_write_def)
  have b: "Logger_output env0 DEBUG 0 2 (\<lambda>b. Appendln (grow env0) b [''started'']) (?l, [])
       = Some (None, ?l, [])"
    using t2 g by blast
  have c: "\<exists>bufferPool'. Info env0 [''started''] (?l, [])
         = Some ((), ?l\<lparr>out := Some (Sink failing_write 1)\<rparr>, bufferPool')"
    using t1 g by (simp add: failing_write_def)
  have d: "\<exists>bufferPool'. Error env0 [''started''] (?l, [])
         = Some ((), ?l\<lparr>out := Some (Sink failing_write 1)\<rparr>, bufferPool')"
    using t1 g by (simp add: failing_write_def)
  show ?thesis using h g a b c d by simp
qed

text \<open>
  Claim C2, as stated, fails: an operand that ends in a newline gives a line that ends in
  two newlines, since \<open>fmt.Appendln\<close> always adds one.
\<close>

theorem double_newline_counterexample:
  "Info env0 [''x\<newline>''] (New (Some (Sink buffer_write [])) [] 0 INFO, [])
     = Some ((), New (Some (Sink buffer_write ''[INFO]  x\<newline>\<newline>'')) [] 0 INFO,
             [\<lparr>elems = ''[INFO]  x\<newline>\<newline>'', cap = 16\<rparr>])
   \<and> trailing_newlines ''[INFO]  x\<newline>\<newline>'' = 2"
  by (simp add: Info_def Logger_output_def cfg_defs flag_defs level_defs levelStr_of_def
      caller_location_def getBuffer_def pool_Get_def nil_slice_def formatHeader_def append_bytes_def
      env0_def double_cap_def Appendln_def putBuffer_def pool_Put_def buffer_write_def newline_def
      trailing_newlines_def)

text \<open>
  Claim C2, amended. The line that \<open>Debug\<close>, \<open>Info\<close> or \<open>Error\<close> writes to the sink ends
  with at least one newline, and with exactly one if and only if there is no operand, or
  the last operand is empty, or the last operand does not end in a newline.
\<close>

theorem emitted_line_newlines:
  assumes "inputs_ok e (Flags l) 0 2" "out l = Some w"
  shows "(\<not> gated DEBUG l \<longrightarrow>
            (\<exists>bufferPool'. Debug e v (l, bufferPool)
               = Some ((), l\<lparr>out := Some (fst (Write w (line_text e DEBUG 0 2 l v)))\<rparr>, bufferPool')))
         \<and> (\<not> gated INFO l \<longrightarrow>
            (\<exists>bufferPool'. Info e v (l, bufferPool)
               = Some ((), l\<lparr>out := Some (fst (Write w (line_text e INFO 0 2 l v)))\<rparr>, bufferPool')))
         \<and> (\<not> gated ERROR l \<longrightarrow>
            (\<exists>bufferPool'. Error e v (l, bufferPool)
               = Some ((), l\<lparr>out := Some (fst (Write w (line_text e ERROR 0 2 l v)))\<rparr>, bufferPool')))
         \<and> 1 \<le> trailing_newlines (line_text e level 0 2 l v)
         \<and> (trailing_newlines (line_text e level 0 2 l v) = 1
              \<longleftrightarrow> (v = [] \<or> last v = [] \<or> last (last v) \<noteq> newline))"
  using emitter_run[OF _ assms, of DEBUG v bufferPool] emitter_run[OF _ assms, of INFO v bufferPool]
    emitter_run[OF _ assms, of ERROR v bufferPool] line_text_newlines[of e level 0 2 l v]
  unfolding Debug_def Info_def Error_def by blast

theorem emitted_line_newlines_witness:
  "inputs_ok env0 (Flags (New (Some (Sink buffer_write [])) ''APP '' 0 DEBUG)) 0 2
   \<and> out (New (Some (Sink buffer_write [])) ''APP '' 0 DEBUG) = Some (Sink buffer_write [])
   \<and> \<not> gated DEBUG (New (Some (Sink buffer_write [])) ''APP '' 0 DEBUG)
   \<and> \<not> gated INFO (New (Some (Sink buffer_write [])) ''APP '' 0 DEBUG)
   \<and> \<not> gated ERROR (New (Some (Sink buffer_write [])) ''APP '' 0 DEBUG)
   \<and> (\<exists>bufferPool'. Info env0 [''started''] (New (Some (Sink buffer_write [])) ''APP '' 0 DEBUG, [])
         = Some ((), (New (Some (Sink buffer_write [])) ''APP '' 0 DEBUG)
                       \<lparr>out := Some (Sink buffer_write ''APP [INFO]  started\<newline>'')\<rparr>, bufferPool'))
   \<and> last (last [''started'']) \<noteq> newline
   \<and> trailing_newlines ''APP [INFO]  started\<newline>'' = 1"
proof -
  let ?l = "New (Some (Sink buffer_write [])) ''APP '' 0 DEBUG"
  have h: "inputs_ok env0 (Flags ?l) 0 2" "out ?l = Some (Sink buffer_write [])"
    by (simp_all add: inputs_ok_def cfg_defs env0_def clock_ok caller_location_def flag_defs int64_def)
  have g: "\<not> gated DEBUG ?l" "\<not> gated INFO ?l" "\<not> gated ERROR ?l"
    by (simp_all add: gated_def below_min_def cfg_defs level_defs)
  have lt: "line_text env0 INFO 0 2 ?l [''started''] = ''APP [INFO]  started\<newline>''"
    by (simp add: line_text_example newline_def)
  have n: "last (last [''started'']) \<noteq> newline" by (simp add: newline_def)
  note t = emitted_line_newlines[OF h, of "[''started'']" "[]" INFO]
  have "\<exists>bufferPool'. Info env0 [''started''] (?l, [])
         = Some ((), ?l\<lparr>out := Some (Sink buffer_write ''APP [INFO]  started\<newline>'')\<rparr>, bufferPool')"
    using t g by (simp add: lt buffer_write_def)
  moreover have "trailing_newlines ''APP [INFO]  started\<newline>'' = 1"
    using t n by (simp add: lt)
  ultimately show ?thesis using h g n by simp
qed

text \<open>
  Claim C3. On a logger made by \<open>New(buf, "APP ", Ldate|Ltime, INFO)\<close>, with the clock at
  2024/01/02 03:04:05, \<open>Info("started")\<close> makes the sink receive exactly
  \<open>"APP [INFO]  2024/01/02 03:04:05 started\n"\<close>.
\<close>

theorem info_started_example:
  "Info env0 [''started'']
     (New (Some (Sink buffer_write [])) ''APP '' (Ldate OR Ltime) INFO, [])
   = Some ((),
       New (Some (Sink buffer_write ''APP [INFO]  2024/01/02 03:04:05 started\<newline>''))
         ''APP '' (Ldate OR Ltime) INFO,
       [\<lparr>elems = ''APP [INFO]  2024/01/02 03:04:05 started\<newline>'', cap = 48\<rparr>])"
proof -
  have fh: "formatHeader double_cap nil_slice clock_20240102 ''APP '' 3 ''[INFO]  '' [] 0
            = Some \<lparr>elems = ''APP [INFO]  2024/01/02 03:04:05 '', cap = 48\<rparr>"
    by code_simp
  have ap: "Appendln double_cap \<lparr>elems = ''APP [INFO]  2024/01/02 03:04:05 '', cap = 48\<rparr> [''started'']
            = \<lparr>elems = ''APP [INFO]  2024/01/02 03:04:05 started\<newline>'', cap = 48\<rparr>"
    by (simp add: Appendln_def append_bytes_def newline_def)
  have nl: "newline = CHR ''\<newline>''" by (simp add: newline_def)
  have cl: "caller_location env0 3 0 2 = ([], 0)"
    by (simp add: caller_location_def flag_defs)
  have ls: "levelStr_of INFO = ''[INFO]  ''"
    by (simp add: levelStr_of_def level_defs)
  have e: "Now env0 = clock_20240102" "grow env0 = double_cap" by (simp_all add: env0_def)
  have g: "\<not> sint (ucast INFO :: 32 word) < sint (ucast INFO :: 32 word)" by simp
  show ?thesis
    using g
    by (simp add: Info_def Logger_output_def cfg_defs flag_defs
        getBuffer_Nil fh ap cl ls e nl putBuffer_def pool_Put_def buffer_write_def)
qed

text \<open>
  Claim C4. A call of \<open>output\<close> at a level below the logger's minimum level, or on a
  logger whose discard hint is set, returns nil and leaves the logger (and with it the
  sink) and the buffer pool as they were, whatever the clock, the caller and the
  message function are: nothing is formatted, no buffer is taken, nothing is written.
\<close>

theorem gates_skip_write:
  "(level < m \<longrightarrow>
      Logger_output e level pc calldepth appendOutput (SetLevel m l, bufferPool)
        = Some (None, SetLevel m l, bufferPool))
   \<and> (sint (ucast level :: 32 word) < sint (minLevel l) \<longrightarrow>
      Logger_output e level pc calldepth appendOutput (l, bufferPool) = Some (None, l, bufferPool))
   \<and> (isDiscard l \<longrightarrow>
      Logger_output e level pc calldepth appendOutput (l, bufferPool) = Some (None, l, bufferPool))"
proof -
  have "Logger_output e level pc calldepth appendOutput (SetLevel m l, bufferPool)
        = Some (None, SetLevel m l, bufferPool)" if "level < m"
    using that by (intro output_gated) (simp add: gated_def below_min_SetLevel)
  moreover have "Logger_output e level pc calldepth appendOutput (l, bufferPool) = Some (None, l, bufferPool)"
    if "sint (ucast level :: 32 word) < sint (minLevel l)"
    using that by (intro output_gated) (simp add: gated_def below_min_def)
  moreover have "Logger_output e level pc calldepth appendOutput (l, bufferPool) = Some (None, l, bufferPool)"
    if "isDiscard l"
    using that by (intro output_gated) (simp add: gated_def)
  ultimately show ?thesis by blast
qed

theorem gates_skip_write_witness:
  "INFO < ERROR
   \<and> Logger_output env0 INFO 0 2 (\<lambda>b. Appendln double_cap b [''lost''])
        (SetLevel ERROR (New (Some (Sink failing_write 0)) ''APP '' LstdFlags DEBUG), [])
      = Some (None, SetLevel ERROR (New (Some (Sink failing_write 0)) ''APP '' LstdFlags DEBUG), [])
   \<and> sint (ucast DEBUG :: 32 word) < sint (minLevel (New (Some (Sink failing_write 0)) ''APP '' LstdFlags INFO))
   \<and> Logger_output env0 DEBUG 0 2 (\<lambda>b. Appendln double_cap b [''lost''])
        (New (Some (Sink failing_write 0)) ''APP '' LstdFlags INFO, [])
      = Some (None, New (Some (Sink failing_write 0)) ''APP '' LstdFlags INFO, [])
   \<and> isDiscard (New (Some Discard) ''APP '' LstdFlags DEBUG :: nat Logger)
   \<and> Logger_output env0 ERROR 0 2 (\<lambda>b. Appendln double_cap b [''lost''])
        (New (Some Discard) ''APP '' LstdFlags DEBUG :: nat Logger, [])
      = Some (None, New (Some Discard) ''APP '' LstdFlags DEBUG, [])"
proof -
  have h1: "INFO < ERROR" by (simp add: INFO_def ERROR_def)
  have h2: "sint (ucast DEBUG :: 32 word) < sint (minLevel (New (Some (Sink failing_write 0)) ''APP '' LstdFlags INFO))"
    by (simp add: New_def SetLevel_def SetFlags_def SetPrefix_def SetOutput_def new_Logger_def
        DEBUG_def INFO_def)
  have h3: "isDiscard (New (Some Discard) ''APP '' LstdFlags DEBUG :: nat Logger)"
    by (simp add: New_def SetLevel_def SetFlags_def SetPrefix_def SetOutput_def new_Logger_def)
  show ?thesis
    using h1 h2 h3
      gates_skip_write[of INFO ERROR env0 0 2 "\<lambda>b. Appendln double_cap b [''lost'']"
        "New (Some (Sink failing_write 0)) ''APP '' LstdFlags DEBUG" "[]"]
      gates_skip_write[of DEBUG ERROR env0 0 2 "\<lambda>b. Appendln double_cap b [''lost'']"
        "New (Some (Sink failing_write 0)) ''APP '' LstdFlags INFO" "[]"]
      gates_skip_write[of ERROR ERROR env0 0 2 "\<lambda>b. Appendln double_cap b [''lost'']"
        "New (Some Discard) ''APP '' LstdFlags DEBUG :: nat Logger" "[]"]
    by simp
qed

text \<open>
  Claim C5. \<open>SetFlags x\<close> then \<open>Flags\<close> gives \<open>x\<close> for every valid flags value: every
  combination of the six flag bits and, more generally, every value of the 32-bit
  field that holds it. \<open>SetPrefix s\<close> then \<open>Prefix\<close> gives \<open>s\<close>, and \<open>SetLevel v\<close> then
  \<open>Level\<close> gives \<open>v\<close>, for every string and every level.
\<close>

theorem setter_getter_roundtrip:
  "(x AND NOT (Ldate OR Ltime OR Lmicroseconds OR Llongfile OR Lshortfile OR LUTC) = 0
      \<longrightarrow> Flags (SetFlags x l) = x)
   \<and> (- (2 ^ 31) \<le> y \<and> y < 2 ^ 31 \<longrightarrow> Flags (SetFlags y l) = y)
   \<and> Prefix (SetPrefix s l) = s
   \<and> Level (SetLevel v l) = v"
proof -
  have "Flags (SetFlags x l) = x"
    if h: "x AND NOT (Ldate OR Ltime OR Lmicroseconds OR Llongfile OR Lshortfile OR LUTC) = 0"
  proof -
    have "0 \<le> x \<and> x < 64" using h flags_const flag_bits_range by simp
    then have "- (2 ^ 31) \<le> x" "x < 2 ^ 31" by simp_all
    then show ?thesis by (rule Flags_SetFlags)
  qed
  then show ?thesis
    by (simp add: Flags_SetFlags Level_SetLevel Prefix_def SetPrefix_def)
qed

theorem setter_getter_roundtrip_witness:
  "(Ldate OR Ltime OR LUTC) AND NOT (Ldate OR Ltime OR Lmicroseconds OR Llongfile OR Lshortfile OR LUTC) = 0
   \<and> Flags (SetFlags (Ldate OR Ltime OR LUTC) (new_Logger :: unit Logger)) = Ldate OR Ltime OR LUTC
   \<and> - (2 ^ 31) \<le> (- 7 :: int) \<and> (- 7 :: int) < 2 ^ 31
   \<and> Flags (SetFlags (- 7) (new_Logger :: unit Logger)) = - 7
   \<and> Prefix (SetPrefix ''APP '' (new_Logger :: unit Logger)) = ''APP ''
   \<and> Level (SetLevel ERROR (new_Logger :: unit Logger)) = ERROR"
proof -
  have h: "(Ldate OR Ltime OR LUTC) AND NOT (Ldate OR Ltime OR Lmicroseconds OR Llongfile OR Lshortfile OR LUTC) = 0"
    by (simp add: Ldate_def Ltime_def Lmicroseconds_def Llongfile_def Lshortfile_def LUTC_def)
  have r: "- (2 ^ 31) \<le> (- 7 :: int) \<and> (- 7 :: int) < 2 ^ 31" by simp
  show ?thesis
    using h r
      setter_getter_roundtrip[of "Ldate OR Ltime OR LUTC" "new_Logger :: unit Logger" "- 7" "''APP ''" ERROR]
    by simp
qed

text \<open>
  Claim C6, as stated, fails for a path whose last separator is its first character:
  with the short-file flag, \<open>"/c.ext"\<close> is rendered whole, not as \<open>"c.ext"\<close>.
\<close>

theorem short_file_counterexample:
  "formatHeader double_cap nil_slice clock_20240102 [] Lshortfile [] ''/c.ext'' 42
     = Some \<lparr>elems = ''/c.ext:42: '', cap = 12\<rparr>
   \<and> after_last_sep ''/c.ext'' = ''c.ext''
   \<and> ''/c.ext:42: '' \<noteq> after_last_sep ''/c.ext'' @ '':42: ''"
proof -
  have "formatHeader double_cap nil_slice clock_20240102 [] Lshortfile [] ''/c.ext'' 42
     = Some \<lparr>elems = ''/c.ext:42: '', cap = 12\<rparr>"
    by code_simp
  moreover have "after_last_sep ''/c.ext'' = ''c.ext''"
    by (simp add: after_last_sep_def)
  ultimately show ?thesis by simp
qed

text \<open>
  Claim C6, amended. For a line number that is not negative: with the short-file flag the
  header renders the substring after the last path separator when the path has a
  separator after its first character, and the whole path otherwise (so \<open>"/a/b/c.ext"\<close>
  renders as \<open>"c.ext"\<close>); with the long-file flag and without the short-file flag it
  renders the whole path. In both cases \<open>:\<close>, the unpadded decimal line number and
  \<open>": "\<close> follow.
\<close>

theorem caller_location_rendered:
  assumes "time_ok t" "0 \<le> line" "int64 line"
  shows "(flg AND Lshortfile \<noteq> 0 \<longrightarrow>
            (\<exists>s. formatHeader g buf t p flg levelStr path line = Some s
                \<and> elems s = elems buf @ p @ levelStr @ stamp_text t flg
                    @ (if CHR ''/'' \<in> set (tl path) then after_last_sep path else path)
                    @ '':'' @ decimal (nat line) @ '': ''))
         \<and> (flg AND Lshortfile = 0 \<and> flg AND Llongfile \<noteq> 0 \<longrightarrow>
            (\<exists>s. formatHeader g buf t p flg levelStr path line = Some s
                \<and> elems s = elems buf @ p @ levelStr @ stamp_text t flg
                    @ path @ '':'' @ decimal (nat line) @ '': ''))"
proof (intro conjI impI)
  assume s: "flg AND Lshortfile \<noteq> 0"
  then have fl: "flg AND (Lshortfile OR Llongfile) \<noteq> 0" by (rule flag_or_nonzero(1))
  show "\<exists>s. formatHeader g buf t p flg levelStr path line = Some s
                \<and> elems s = elems buf @ p @ levelStr @ stamp_text t flg
                    @ (if CHR ''/'' \<in> set (tl path) then after_last_sep path else path)
                    @ '':'' @ decimal (nat line) @ '': ''"
    using header_with_location[OF assms fl, of g buf p levelStr path] s
    by (simp add: short_file_char)
next
  assume l: "flg AND Lshortfile = 0 \<and> flg AND Llongfile \<noteq> 0"
  then have fl: "flg AND (Lshortfile OR Llongfile) \<noteq> 0" using flag_or_nonzero(2) by blast
  show "\<exists>s. formatHeader g buf t p flg levelStr path line = Some s
                \<and> elems s = elems buf @ p @ levelStr @ stamp_text t flg
                    @ path @ '':'' @ decimal (nat line) @ '': ''"
    using header_with_location[OF assms fl, of g buf p levelStr path] l
    by simp
qed

theorem caller_location_rendered_witness:
  "time_ok clock_20240102 \<and> (0::int) \<le> 42 \<and> int64 42
   \<and> Lshortfile AND Lshortfile \<noteq> 0
   \<and> (\<exists>s. formatHeader double_cap nil_slice clock_20240102 ''APP '' Lshortfile ''[INFO]  '' ''/a/b/c.ext'' 42 = Some s
          \<and> elems s = ''APP [INFO]  c.ext:42: '')
   \<and> Llongfile AND Lshortfile = 0 \<and> Llongfile AND Llongfile \<noteq> 0
   \<and> (\<exists>s. formatHeader double_cap nil_slice clock_20240102 ''APP '' Llongfile ''[INFO]  '' ''/a/b/c.ext'' 42 = Some s
          \<and> elems s = ''APP [INFO]  /a/b/c.ext:42: '')"
proof -
  have h: "time_ok clock_20240102" "(0::int) \<le> 42" "int64 42"
    by (simp_all add: clock_ok int64_def)
  have f: "Lshortfile AND Lshortfile \<noteq> 0" "Llongfile AND Lshortfile = 0" "Llongfile AND Llongfile \<noteq> 0"
    by (simp_all add: flag_defs)
  have st: "stamp_text clock_20240102 Lshortfile = []" "stamp_text clock_20240102 Llongfile = []"
    by (simp_all add: stamp_text_def flag_defs)
  have d: "decimal 42 = ''42''" by code_simp
  have a: "after_last_sep ''/a/b/c.ext'' = ''c.ext''" by (simp add: after_last_sep_def)
  show ?thesis
    using h f
      caller_location_rendered[OF h, of Lshortfile double_cap nil_slice "''APP ''" "''[INFO]  ''" "''/a/b/c.ext''"]
      caller_location_rendered[OF h, of Llongfile double_cap nil_slice "''APP ''" "''[INFO]  ''" "''/a/b/c.ext''"]
    by (simp add: st d a nil_slice_def)
qed

text \<open>
  Claim C7. \<open>getBuffer\<close> hands out the pooled slice with length zero and its capacity
  kept (a fresh nil slice when the pool is empty). \<open>putBuffer\<close> returns the slice to
  the pool, and replaces it by the nil slice first exactly when its capacity exceeds
  64 KiB (65536 bytes); a slice of at most that capacity goes back as it is.
\<close>

theorem buffer_pool_ops:
  "elems (fst (getBuffer (p # ps))) = [] \<and> cap (fst (getBuffer (p # ps))) = cap p
   \<and> snd (getBuffer (p # ps)) = ps
   \<and> getBuffer [] = (\<lparr>elems = [], cap = 0\<rparr>, [])
   \<and> (65536 < cap q \<longrightarrow> putBuffer q bufferPool = \<lparr>elems = [], cap = 0\<rparr> # bufferPool)
   \<and> (cap q \<le> 65536 \<longrightarrow> putBuffer q bufferPool = q # bufferPool)"
  by (simp add: getBuffer_def pool_Get_def putBuffer_def pool_Put_def nil_slice_def)

theorem buffer_pool_ops_witness:
  "getBuffer [\<lparr>elems = ''old line'', cap = 16\<rparr>] = (\<lparr>elems = [], cap = 16\<rparr>, [])
   \<and> putBuffer \<lparr>elems = ''x'', cap = 70000\<rparr> [] = [\<lparr>elems = [], cap = 0\<rparr>]
   \<and> putBuffer \<lparr>elems = ''x'', cap = 65536\<rparr> [] = [\<lparr>elems = ''x'', cap = 65536\<rparr>]"
  using buffer_pool_ops[of "\<lparr>elems = ''old line'', cap = 16\<rparr>" "[]" "\<lparr>elems = ''x'', cap = 70000\<rparr>" "[]"]
    buffer_pool_ops[of "\<lparr>elems = ''old line'', cap = 16\<rparr>" "[]" "\<lparr>elems = ''x'', cap = 65536\<rparr>" "[]"]
  by (simp add: prod_eq_iff getBuffer_def pool_Get_def)

text \<open>
  Claim C8. The level tag is one of the four eight-byte strings \<open>"[DEBUG] "\<close>,
  \<open>"[INFO]  "\<close>, \<open>"[ERROR] "\<close>, \<open>"[?????] "\<close>; a level other than DEBUG, INFO and ERROR
  gets \<open>"[?????] "\<close>, and the call goes on as for any level: it writes the prefix, the
  tag and the rest of the line to the sink and returns what the sink returns.
\<close>

theorem level_tag_rendered:
  assumes "\<not> gated level l" "inputs_ok e (Flags l) pc calldepth" "out l = Some w"
  shows "levelStr_of level \<in> {''[DEBUG] '', ''[INFO]  '', ''[ERROR] '', ''[?????] ''}
         \<and> length (levelStr_of level) = 8
         \<and> levelStr_of DEBUG = ''[DEBUG] '' \<and> levelStr_of INFO = ''[INFO]  ''
         \<and> levelStr_of ERROR = ''[ERROR] ''
         \<and> (level \<notin> {DEBUG, INFO, ERROR} \<longrightarrow> levelStr_of level = ''[?????] '')
         \<and> (\<exists>rest bufferPool'.
               Logger_output e level pc calldepth (\<lambda>b. Appendln (grow e) b v) (l, bufferPool)
               = Some (snd (snd (Write w (Prefix l @ levelStr_of level @ rest))),
                       l\<lparr>out := Some (fst (Write w (Prefix l @ levelStr_of level @ rest)))\<rparr>,
                       bufferPool'))"
proof -
  obtain buf where b: "elems buf = line_text e level pc calldepth l v"
    and run: "Logger_output e level pc calldepth (\<lambda>b. Appendln (grow e) b v) (l, bufferPool)
             = (case Write w (elems buf) of (w', n, err) \<Rightarrow>
                     Some (err, l\<lparr>out := Some w'\<rparr>, putBuffer buf (snd (getBuffer bufferPool))))"
    using emit_run[OF assms] by blast
  obtain rest where r: "elems buf = Prefix l @ levelStr_of level @ rest"
    using b by (auto simp: line_text_def header_text_def split: prod.splits)
  have "Logger_output e level pc calldepth (\<lambda>b. Appendln (grow e) b v) (l, bufferPool)
               = Some (snd (snd (Write w (Prefix l @ levelStr_of level @ rest))),
                       l\<lparr>out := Some (fst (Write w (Prefix l @ levelStr_of level @ rest)))\<rparr>,
                       putBuffer buf (snd (getBuffer bufferPool)))"
    using run r by (simp add: split_beta)
  then show ?thesis
    using levelStr_of_cases[of level]
    by (auto simp: levelStr_of_def level_defs)
qed

theorem level_tag_rendered_witness:
  "\<not> gated 7 (New (Some (Sink buffer_write [])) ''APP '' 0 DEBUG)
   \<and> inputs_ok env0 (Flags (New (Some (Sink buffer_write [])) ''APP '' 0 DEBUG)) 0 2
   \<and> out (New (Some (Sink buffer_write [])) ''APP '' 0 DEBUG) = Some (Sink buffer_write [])
   \<and> (7::Level) \<notin> {DEBUG, INFO, ERROR}
   \<and> levelStr_of 7 = ''[?????] ''
   \<and> (\<exists>rest bufferPool'.
         Logger_output env0 7 0 2 (\<lambda>b. Appendln (grow env0) b [''msg''])
           (New (Some (Sink buffer_write [])) ''APP '' 0 DEBUG, [])
         = Some (None,
                 (New (Some (Sink buffer_write [])) ''APP '' 0 DEBUG)
                   \<lparr>out := Some (Sink buffer_write (''APP [?????] '' @ rest))\<rparr>,
                 bufferPool'))"
proof -
  let ?l = "New (Some (Sink buffer_write [])) ''APP '' 0 DEBUG"
  have h: "\<not> gated 7 ?l" "inputs_ok env0 (Flags ?l) 0 2" "out ?l = Some (Sink buffer_write [])"
    by (simp_all add: gated_def below_min_def inputs_ok_def cfg_defs level_defs env0_def clock_ok
        caller_location_def flag_defs int64_def)
  have n: "(7::Level) \<notin> {DEBUG, INFO, ERROR}" by (simp add: level_defs)
  have p: "Prefix ?l = ''APP ''" by (simp add: cfg_defs)
  note t = level_tag_rendered[OF h, of "[''msg'']" "[]"]
  have ls: "levelStr_of 7 = ''[?????] ''" using t n by blast
  have "\<exists>rest bufferPool'.
         Logger_output env0 7 0 2 (\<lambda>b. Appendln (grow env0) b [''msg'']) (?l, [])
         = Some (None, ?l\<lparr>out := Some (Sink buffer_write (''APP [?????] '' @ rest))\<rparr>, bufferPool')"
    using t by (simp add: ls p buffer_write_def)
  then show ?thesis using h n ls by simp
qed

text \<open>
  Claim C9. For a non-negative \<open>i\<close> (a Go \<open>int\<close>) and each width that \<open>formatHeader\<close>
  passes (\<open>-1\<close>, \<open>2\<close>, \<open>4\<close>, \<open>6\<close>), \<open>itoa\<close> returns (its loop terminates and no store
  leaves the twenty-byte array, so there is no panic) and appends exactly the decimal
  digits of \<open>i\<close> (the digit string whose value is \<open>i\<close>), zero-padded on the left to
  the width; the result has \<open>max width digits\<close> characters, and width \<open>-1\<close> pads
  nothing.
\<close>

theorem itoa_renders_decimal:
  assumes "0 \<le> i" "int64 i" "wid \<in> {- 1, 2, 4, 6}"
  shows "itoa g buf i wid = Some (append_bytes g buf (zero_pad (nat wid) (decimal (nat i))))
         \<and> length (zero_pad (nat wid) (decimal (nat i))) = max (nat wid) (length (decimal (nat i)))
         \<and> zero_pad (nat (- 1)) (decimal (nat i)) = decimal (nat i)
         \<and> decimal_value (decimal (nat i)) = nat i"
proof -
  have w: "wid \<le> 19" using assms(3) by auto
  have "itoa g buf i wid = Some (append_bytes g buf (itoa_bytes i wid))"
    using assms(2) w by (rule itoa_Some)
  moreover have "itoa_bytes i wid = zero_pad (nat wid) (decimal (nat i))"
    using assms(1,2) w by (rule itoa_bytes_nonneg)
  ultimately show ?thesis by (simp add: zero_pad_def max_def decimal_value_decimal)
qed

theorem itoa_renders_decimal_witness:
  "(0::int) \<le> 2024 \<and> int64 2024 \<and> (4::int) \<in> {- 1, 2, 4, 6}
   \<and> itoa double_cap nil_slice 2024 4 = Some \<lparr>elems = ''2024'', cap = 4\<rparr>
   \<and> itoa double_cap nil_slice 7 2 = Some \<lparr>elems = ''07'', cap = 2\<rparr>"
proof -
  have h: "(0::int) \<le> 2024" "int64 2024" "(4::int) \<in> {- 1, 2, 4, 6}"
    "(0::int) \<le> 7" "int64 7" "(2::int) \<in> {- 1, 2, 4, 6}"
    by (simp_all add: int64_def)
  have ev: "append_bytes double_cap nil_slice (zero_pad (nat 4) (decimal (nat 2024)))
            = \<lparr>elems = ''2024'', cap = 4\<rparr>"
    "append_bytes double_cap nil_slice (zero_pad (nat 2) (decimal (nat 7)))
            = \<lparr>elems = ''07'', cap = 2\<rparr>"
    by code_simp+
  show ?thesis
    using h ev itoa_renders_decimal[OF h(1,2,3), of double_cap nil_slice]
      itoa_renders_decimal[OF h(4,5,6), of double_cap nil_slice]
    by simp
qed

text \<open>
  Claim C10. With the short-file flag, a path whose only separator is its first character
  is rendered unchanged, since the scan stops before index 0; whenever the short file
  name differs from the path, it is what follows a separator at an index greater than 0.
\<close>

theorem short_file_skips_index_0:
  assumes "time_ok t" "0 \<le> line" "int64 line" "flg AND Lshortfile \<noteq> 0"
  shows "(CHR ''/'' \<notin> set fl \<longrightarrow>
            short_file (CHR ''/'' # fl) = CHR ''/'' # fl
            \<and> (\<exists>s. formatHeader g buf t p flg levelStr (CHR ''/'' # fl) line = Some s
                  \<and> elems s = elems buf @ p @ levelStr @ stamp_text t flg
                               @ (CHR ''/'' # fl) @ '':'' @ decimal (nat line) @ '': ''))
         \<and> (short_file path \<noteq> path \<longrightarrow>
              (\<exists>i. 0 < i \<and> i < length path \<and> path ! i = CHR ''/''
                   \<and> short_file path = drop (Suc i) path))"
proof -
  have fl: "flg AND (Lshortfile OR Llongfile) \<noteq> 0"
    using assms(4) by (rule flag_or_nonzero(1))
  have "\<exists>s. formatHeader g buf t p flg levelStr (CHR ''/'' # fl) line = Some s
           \<and> elems s = elems buf @ p @ levelStr @ stamp_text t flg
               @ short_file (CHR ''/'' # fl) @ '':'' @ decimal (nat line) @ '': ''"
    using header_with_location[OF assms(1,2,3) fl, of g buf p levelStr "CHR ''/'' # fl"] assms(4)
    by simp
  then show ?thesis using short_file_cases[of path] by (auto simp: short_file_leading)
qed

theorem short_file_skips_index_0_witness:
  "time_ok clock_20240102 \<and> (0::int) \<le> 42 \<and> int64 42 \<and> Lshortfile AND Lshortfile \<noteq> 0
   \<and> CHR ''/'' \<notin> set ''c.ext''
   \<and> short_file ''/c.ext'' = ''/c.ext''
   \<and> (\<exists>s. formatHeader double_cap nil_slice clock_20240102 ''APP '' Lshortfile ''[INFO]  '' ''/c.ext'' 42 = Some s
          \<and> elems s = ''APP [INFO]  /c.ext:42: '')
   \<and> short_file ''/a/b/c.ext'' \<noteq> ''/a/b/c.ext''
   \<and> (\<exists>i. 0 < i \<and> i < length ''/a/b/c.ext'' \<and> ''/a/b/c.ext'' ! i = CHR ''/''
          \<and> short_file ''/a/b/c.ext'' = drop (Suc i) ''/a/b/c.ext'')"
proof -
  have h: "time_ok clock_20240102" "(0::int) \<le> 42" "int64 42" "Lshortfile AND Lshortfile \<noteq> 0"
    by (simp_all add: clock_ok int64_def Lshortfile_def)
  have a: "CHR ''/'' \<notin> set ''c.ext''" by simp
  have b: "short_file ''/a/b/c.ext'' \<noteq> ''/a/b/c.ext''" by (simp add: short_file_def)
  have st: "stamp_text clock_20240102 Lshortfile = []" by (simp add: stamp_text_def flag_defs)
  have d: "decimal 42 = ''42''" by code_simp
  show ?thesis
    using h a b
      short_file_skips_index_0[OF h, of "''c.ext''" double_cap nil_slice "''APP ''" "''[INFO]  ''" "''/a/b/c.ext''"]
    by (simp add: st d nil_slice_def)
qed

end
